theory Spec2Isabelle
  imports Main "HOL-Library.Word" "HOL-Library.Signed_Division"
begin

section \<open>Machine integers and text formatting\<close>

text \<open>
  Both drivers compute with Go's \<open>int32\<close> (the components of \<open>dvid.VoxelCoord\<close>,
  \<open>dvid.Point2d\<close> and \<open>dvid.Point3d\<close>, and the parameters of \<open>tileFilename\<close>).
  They are 32-bit words here: \<open>+\<close>, \<open>-\<close> and \<open>*\<close> wrap, \<open>sint\<close> reads the signed
  value, comparisons are on \<open>sint\<close>. Go's \<open>/\<close> truncates towards zero.
\<close>

type_synonym int32 = "32 word"

definition div32 :: "int32 \<Rightarrow> int32 \<Rightarrow> int32" where
  "div32 a b = word_of_int (sint a sdiv sint b)"

definition digit :: "int \<Rightarrow> char" where
  "digit n = ''0123456789'' ! nat n"

text \<open>The decimal digits of a non-negative integer, most significant first.\<close>

function dec :: "int \<Rightarrow> string" where
  "dec n = (if n < 10 then [digit n] else dec (n div 10) @ [digit (n mod 10)])"
  by pat_completeness auto
termination
  by (relation "measure nat") auto

declare dec.simps [simp del]

text \<open>\<open>fmt.Sprintf("%d", i)\<close> and \<open>strconv.Itoa\<close>.\<close>

definition fmt_d :: "int \<Rightarrow> string" where
  "fmt_d i = (if i < 0 then CHR ''-'' # dec (- i) else dec i)"

text \<open>
  \<open>fmt.Sprintf("%03d", i)\<close>: the width 3 counts the sign, the zeros go between the sign
  and the digits.
\<close>

definition fmt_03d :: "int \<Rightarrow> string" where
  "fmt_03d i =
     (let ds = dec \<bar>i\<bar>;
          prec = (if i < 0 then 2 else 3);
          padded = replicate (prec - length ds) CHR ''0'' @ ds
      in if i < 0 then CHR ''-'' # padded else padded)"

section \<open>Paths\<close>

text \<open>
  \<open>filepath.Join\<close> and \<open>filepath.Clean\<close> belong to Go's standard library (Unix
  separator). \<open>Join\<close> drops leading empty elements, joins the rest with a slash and
  cleans the result; \<open>Clean\<close> removes empty and \<open>.\<close> elements, resolves \<open>..\<close> against
  the element before it, and turns the empty path into \<open>.\<close>.
\<close>

fun splitSlash :: "string \<Rightarrow> string list" where
  "splitSlash [] = [[]]"
| "splitSlash (c # cs) =
     (if c = CHR ''/'' then [] # splitSlash cs
      else (case splitSlash cs of
              [] \<Rightarrow> [[c]]
            | w # ws \<Rightarrow> (c # w) # ws))"

fun joinSlash :: "string list \<Rightarrow> string" where
  "joinSlash [] = []"
| "joinSlash [e] = e"
| "joinSlash (e # es) = e @ ''/'' @ joinSlash es"

text \<open>The elements kept so far are held in reverse.\<close>

fun cleanElems :: "bool \<Rightarrow> string list \<Rightarrow> string list \<Rightarrow> string list" where
  "cleanElems rooted kept [] = rev kept"
| "cleanElems rooted kept (c # cs) =
     (if c = [] \<or> c = ''.'' then cleanElems rooted kept cs
      else if c = ''..'' then
        (case kept of
           [] \<Rightarrow> cleanElems rooted (if rooted then [] else [''..'']) cs
         | k # ks \<Rightarrow>
             (if k = ''..'' then cleanElems rooted (''..'' # kept) cs
              else cleanElems rooted ks cs))
      else cleanElems rooted (c # kept) cs)"

definition Clean :: "string \<Rightarrow> string" where
  "Clean path =
     (if path = [] then ''.''
      else
        (let rooted = (hd path = CHR ''/'');
             out = (if rooted then ''/'' else []) @ joinSlash (cleanElems rooted [] (splitSlash path))
         in if out = [] then ''.'' else out))"

fun Join :: "string list \<Rightarrow> string" where
  "Join [] = []"
| "Join (e # es) = (if e \<noteq> [] then Clean (joinSlash (e # es)) else Join es)"

section \<open>The tile-server importer: tile file names\<close>

text \<open>\<open>const tileSize = 1024\<close> of \<open>raveler/main.go\<close>.\<close>

definition tileSize :: int32 where
  "tileSize = 1024"

text \<open>
  \<open>tileFilename\<close> of \<open>raveler/main.go\<close>: the path of a tile relative to the tiles
  directory.
\<close>

definition tileFilename :: "int32 \<Rightarrow> int32 \<Rightarrow> int32 \<Rightarrow> bool \<Rightarrow> string" where
  "tileFilename row col slice_n superpixel =
     (let typeDir = (if superpixel then ''s'' else ''g'') in
      if 1000 \<le> sint slice_n then
        (let sliceDir = div32 slice_n 1000 * 1000 in
         fmt_d (sint tileSize) @ ''/0/'' @ fmt_d (sint row) @ ''/'' @ fmt_d (sint col) @ ''/''
           @ typeDir @ ''/'' @ fmt_d (sint sliceDir) @ ''/'' @ fmt_d (sint slice_n) @ ''.png'')
      else
        fmt_d (sint tileSize) @ ''/0/'' @ fmt_d (sint row) @ ''/'' @ fmt_d (sint col) @ ''/''
          @ typeDir @ ''/'' @ fmt_03d (sint slice_n) @ ''.png'')"

section \<open>Processes, output and exits\<close>

text \<open>
  What a run does to the outside is recorded, in order, as a list of events: a
  subprocess run to completion (\<open>cmd.Output\<close>, with the error it returned), a subprocess
  started in the background (\<open>cmd.Start\<close>), a line printed, the usage text, a line
  written by \<open>log\<close>, and the settling delay.
  A run ends by \<open>os.Exit\<close> (also behind \<open>log.Fatal\<close>, with code 1, and at the end of
  \<open>main\<close>, with code 0) or by a run-time panic. Every loop is given \<open>fuel\<close> iterations;
  \<open>OutOfFuel\<close> is a loop that used them up.
\<close>

datatype event =
    Exec "string list" "string option"
  | Start "string list" "string option"
  | Print string
  | Usage
  | Log string
  | Sleep nat

datatype status = Exited nat | Panicked string | OutOfFuel

text \<open>
  The environment of a run: what the subprocesses answer (which may depend on everything
  that happened before), the lines \<open>ReadLine\<close> delivers from the standard output of
  \<open>dvid init\<close> before it reports an error or the end of the stream,
  \<open>fmt.Sscanf(line, "Root node UUID: %s", &uuidStr)\<close> (\<open>Some\<close> token when it returns
  \<open>n = 1\<close> and no error), and the parsers and printers of package \<open>dvid\<close>.
\<close>

record env =
  cmdOutput :: "event list \<Rightarrow> string list \<Rightarrow> string \<times> string option"
  cmdStart :: "event list \<Rightarrow> string list \<Rightarrow> string option"
  stdoutPipe :: "string option"
  stdoutLines :: "string list"
  sscanfUUID :: "string \<Rightarrow> string option"
  point2d :: "string \<Rightarrow> string + int32 \<times> int32"
  point3d :: "string \<Rightarrow> string + int32 \<times> int32 \<times> int32"
  voxelCoord :: "string \<Rightarrow> string + int32 \<times> int32 \<times> int32"
  coordString :: "int32 \<times> int32 \<times> int32 \<Rightarrow> string"

text \<open>\<open>runCommand\<close> (the same in both drivers): run, print the output if there is any.\<close>

definition runCommand :: "env \<Rightarrow> event list \<Rightarrow> string list \<Rightarrow> event list \<times> string option" where
  "runCommand e tr args =
     (case cmdOutput e tr args of
        (out, err) \<Rightarrow>
          (if out \<noteq> [] then tr @ [Exec args err, Print out] else tr @ [Exec args err], err))"

text \<open>
  The recurring pattern
  \<open>err = runCommand(...); if err != nil { log.Fatalf("Error in command: %s\n", err.Error()) }\<close>.
\<close>

definition runOrFatal :: "env \<Rightarrow> event list \<Rightarrow> string list \<Rightarrow> event list \<times> status option" where
  "runOrFatal e tr args =
     (case runCommand e tr args of
        (tr', None) \<Rightarrow> (tr', None)
      | (tr', Some m) \<Rightarrow> (tr' @ [Log (''Error in command: '' @ m)], Some (Exited 1)))"

text \<open>
  The progress line of a slice, \<open>fmt.Printf("Added %d %s tiles from z = %d...\n", ...)\<close>
  in the tile-server importer; the VoxelProof importer has the words \<open>grayscale\<close> and
  \<open>label\<close> in its two format strings.
\<close>

definition addedLine :: "int \<Rightarrow> string \<Rightarrow> int \<Rightarrow> string" where
  "addedLine numTiles name z =
     ''Added '' @ fmt_d numTiles @ '' '' @ name @ '' tiles from z = '' @ fmt_d z @ ''...''"

text \<open>
  \<open>for i := start; cond(i); i++ { body }\<close> over an \<open>int32\<close> counter. The body returns
  the new state and, when it ended the run, how.
\<close>

fun forLoop :: "nat \<Rightarrow> (int32 \<Rightarrow> bool) \<Rightarrow> (int32 \<Rightarrow> 's \<Rightarrow> 's \<times> status option) \<Rightarrow> int32 \<Rightarrow> 's
    \<Rightarrow> 's \<times> status option" where
  "forLoop 0 cond body i s = (s, Some OutOfFuel)"
| "forLoop (Suc fuel) cond body i s =
     (if cond i then
        (case body i s of
           (s', None) \<Rightarrow> forLoop fuel cond body (i + 1) s'
         | (s', Some st) \<Rightarrow> (s', Some st))
      else (s, None))"

section \<open>The tile-server importer (\<open>raveler/main.go\<close>)\<close>

record flags =
  loadSuperpixels :: bool
  loadGrayscale :: bool
  showHelp :: bool

text \<open>
  Modelled from the spec: \<open>dvid.VoxelCoord.AddSize\<close> is defined in package \<open>dvid\<close>,
  outside this repository; the spec takes the end voxel to be \<open>offset + size\<close>.
\<close>

definition AddSize :: "int32 \<times> int32 \<times> int32 \<Rightarrow> int32 \<times> int32 \<times> int32 \<Rightarrow> int32 \<times> int32 \<times> int32" where
  "AddSize c s =
     (case c of (c0, c1, c2) \<Rightarrow> case s of (s0, s1, s2) \<Rightarrow> (c0 + s0, c1 + s1, c2 + s2))"

text \<open>The body of the innermost loop, without the count.\<close>

definition tileBody :: "env \<Rightarrow> flags \<Rightarrow> string \<Rightarrow> string \<Rightarrow> string \<Rightarrow> int32 \<Rightarrow> int32 \<Rightarrow> int32
    \<Rightarrow> event list \<Rightarrow> event list \<times> status option" where
  "tileBody e fl datasetName uuidStr tilesDir z tileY tileX tr =
     (let offsetStr = fmt_d (sint (tileX * tileSize)) @ '','' @ fmt_d (sint (tileY * tileSize))
            @ '','' @ fmt_d (sint z)
      in
      case (if loadSuperpixels fl then
              runOrFatal e tr [''dvid'', datasetName, ''server-add'', uuidStr, offsetStr,
                Join [tilesDir, tileFilename tileY tileX z True]]
            else (tr, None)) of
        (tr1, Some st) \<Rightarrow> (tr1, Some st)
      | (tr1, None) \<Rightarrow>
          (if loadGrayscale fl then
             runOrFatal e tr1 [''dvid'', datasetName, ''server-add'', uuidStr, offsetStr,
               Join [tilesDir, tileFilename tileY tileX z False]]
           else (tr1, None)))"

text \<open>One pass of the loop over \<open>z\<close>: the tile grid of the slice, then the progress line.\<close>

definition addSlice :: "nat \<Rightarrow> env \<Rightarrow> flags \<Rightarrow> string \<Rightarrow> string \<Rightarrow> string \<Rightarrow> int32 \<Rightarrow> int32 \<Rightarrow> int32
    \<Rightarrow> int32 \<Rightarrow> int32 \<Rightarrow> event list \<Rightarrow> event list \<times> status option" where
  "addSlice fuel e fl datasetName uuidStr tilesDir startTileX endTileX startTileY endTileY z tr =
     (case forLoop fuel (\<lambda>tileY. sint tileY \<le> sint endTileY)
             (\<lambda>tileY. forLoop fuel (\<lambda>tileX. sint tileX \<le> sint endTileX)
                (\<lambda>tileX (tr, numTiles).
                   case tileBody e fl datasetName uuidStr tilesDir z tileY tileX tr of
                     (tr', None) \<Rightarrow> ((tr', numTiles + 1), None)
                   | (tr', Some st) \<Rightarrow> ((tr', numTiles), Some st))
                startTileX)
             startTileY (tr, 0 :: int) of
        ((tr', numTiles), None) \<Rightarrow>
          (tr' @ [Print (addedLine numTiles datasetName (sint z))], None)
      | ((tr', numTiles), Some st) \<Rightarrow> (tr', Some st))"

definition main_raveler :: "nat \<Rightarrow> env \<Rightarrow> flags \<Rightarrow> string list \<Rightarrow> event list \<times> status" where
  "main_raveler fuel e fl args =
     (if showHelp fl then ([Usage], Exited 0)
      else if length args < 5 then ([Usage], Exited 2)
      else
        (let uuidStr = args ! 0; datasetName = args ! 1; tilesDir = args ! 2;
             offsetStr = args ! 3; sizeStr = args ! 4;
             tr = [Print (''Tiles directory: '' @ tilesDir)]
         in
         case voxelCoord e offsetStr of
           Inl m \<Rightarrow> (tr @ [Log m], Exited 1)
         | Inr offset \<Rightarrow>
             (let tr = tr @ [Print (''Offset: '' @ coordString e offset)] in
              case point3d e sizeStr of
                Inl m \<Rightarrow> (tr @ [Log m], Exited 1)
              | Inr size3 \<Rightarrow>
                  (let tr = tr @ [Print (''Size: '' @ coordString e size3)];
                       endVoxel = AddSize offset size3;
                       startTileX = div32 (fst offset) tileSize;
                       startTileY = div32 (fst (snd offset)) tileSize;
                       endTileX = div32 (fst endVoxel) tileSize;
                       endTileY = div32 (fst (snd endVoxel)) tileSize
                   in
                   case forLoop fuel (\<lambda>z. sint z \<le> sint (snd (snd endVoxel)))
                          (addSlice fuel e fl datasetName uuidStr tilesDir
                             startTileX endTileX startTileY endTileY)
                          (snd (snd offset)) tr of
                     (tr', None) \<Rightarrow> (tr', Exited 0)
                   | (tr', Some st) \<Rightarrow> (tr', st)))))"

section \<open>The VoxelProof importer (fixed volume)\<close>

text \<open>
  \<open>initDatastore\<close>: start \<open>dvid init\<close> and read its standard output line by line until
  \<open>Sscanf\<close> finds the root version UUID. \<open>readLoop\<close> is the \<open>for\<close> loop over the lines
  that \<open>ReadLine\<close> delivers; \<open>None\<close> is the call of \<open>log.Fatalln\<close> when \<open>ReadLine\<close>
  returns an error.
\<close>

fun readLoop :: "env \<Rightarrow> string list \<Rightarrow> string option" where
  "readLoop e [] = None"
| "readLoop e (line # rest) =
     (case sscanfUUID e line of
        Some uuidStr \<Rightarrow> Some uuidStr
      | None \<Rightarrow> readLoop e rest)"

definition initDatastore :: "env \<Rightarrow> event list \<Rightarrow> string \<Rightarrow> event list \<times> (status + string)" where
  "initDatastore e tr outputDir =
     (let cmd = [''dvid'', ''-datastore='' @ outputDir, ''init''] in
      case stdoutPipe e of
        Some m \<Rightarrow> (tr @ [Log m], Inl (Exited 1))
      | None \<Rightarrow>
          (case cmdStart e tr cmd of
             Some m \<Rightarrow> (tr @ [Start cmd (Some m), Log m], Inl (Exited 1))
           | None \<Rightarrow>
               (case readLoop e (stdoutLines e) of
                  None \<Rightarrow>
                    (tr @ [Start cmd None,
                       Log ''Did not detect root version UUID in output of dvid init!''],
                     Inl (Exited 1))
                | Some uuidStr \<Rightarrow> (tr @ [Start cmd None], Inr uuidStr))))"

text \<open>The two import loops of \<open>main\<close> differ in the dataset, the directory and the word
  of the progress line; \<open>kind\<close> says which of the two is meant.\<close>

datatype kind = Grayscale | Labels

fun dataset :: "kind \<Rightarrow> string" where
  "dataset Grayscale = ''grayscale''"
| "dataset Labels = ''labels''"

fun tileDirs :: "kind \<Rightarrow> string list" where
  "tileDirs Grayscale = [''z'']"
| "tileDirs Labels = [''comps'', ''z'']"

fun progressWord :: "kind \<Rightarrow> string" where
  "progressWord Grayscale = ''grayscale''"
| "progressWord Labels = ''label''"

definition tilepath :: "kind \<Rightarrow> string \<Rightarrow> int32 \<Rightarrow> int32 \<Rightarrow> int32 \<Rightarrow> string" where
  "tilepath k voxelProofDir z y x =
     (let fname = fmt_d (sint y) @ ''-'' @ fmt_d (sint x) @ ''.png''
      in Join (voxelProofDir # tileDirs k @ [fmt_d (sint z), fname]))"

definition offsetStr :: "int32 \<times> int32 \<Rightarrow> int32 \<times> int32 \<Rightarrow> int32 \<Rightarrow> int32 \<Rightarrow> int32 \<Rightarrow> string" where
  "offsetStr zrange tileSz z y x =
     (let ox = x * fst tileSz; oy = y * snd tileSz; oz = z - fst zrange
      in fmt_d (sint ox) @ '','' @ fmt_d (sint oy) @ '','' @ fmt_d (sint oz))"

text \<open>One of the two import loops.\<close>

definition addTiles :: "nat \<Rightarrow> env \<Rightarrow> kind \<Rightarrow> string \<Rightarrow> string \<Rightarrow> int32 \<times> int32 \<Rightarrow> int32 \<times> int32
    \<Rightarrow> int32 \<Rightarrow> int32 \<Rightarrow> int32 \<Rightarrow> event list \<Rightarrow> event list \<times> status option" where
  "addTiles fuel e k uuidStr voxelProofDir zrange tileSz tileXMax tileYMax numTiles tr =
     forLoop fuel (\<lambda>z. sint z \<le> sint (snd zrange))
       (\<lambda>z tr.
          case forLoop fuel (\<lambda>y. sint y < sint tileYMax)
                 (\<lambda>y. forLoop fuel (\<lambda>x. sint x < sint tileXMax)
                    (\<lambda>x tr. runOrFatal e tr
                       [''dvid'', dataset k, ''server-add'', uuidStr,
                        offsetStr zrange tileSz z y x, tilepath k voxelProofDir z y x])
                    0)
                 0 tr of
            (tr', None) \<Rightarrow>
              (tr' @ [Print (addedLine (sint numTiles) (progressWord k) (sint z))], None)
          | (tr', Some st) \<Rightarrow> (tr', Some st))
       (fst zrange) tr"

text \<open>
  \<open>main\<close> from the line after \<open>defer runCommand("dvid", "shutdown")\<close> to its end:
  the two datasets, the tile grid of the fixed volume 700 x 700 x 620, the two import
  loops. \<open>None\<close> is the normal return. A division by a zero tile size panics.
\<close>

definition importVolume :: "nat \<Rightarrow> env \<Rightarrow> string \<Rightarrow> string \<Rightarrow> int32 \<times> int32 \<Rightarrow> int32 \<times> int32
    \<Rightarrow> event list \<Rightarrow> event list \<times> status option" where
  "importVolume fuel e uuidStr voxelProofDir zrange tileSz tr =
     (let tr = fst (runCommand e tr [''dvid'', ''dataset'', ''grayscale'', ''grayscale8'']);
          tr = fst (runCommand e tr [''dvid'', ''dataset'', ''labels'', ''labels32''])
      in
      if fst tileSz = 0 \<or> snd tileSz = 0 then
        (tr, Some (Panicked ''integer divide by zero''))
      else
        (let tileXMax = div32 700 (fst tileSz);
             tileYMax = div32 700 (snd tileSz);
             tr = tr @ [Print (''X Tiles from [0,'' @ fmt_d (sint tileXMax) @ ''), Y Tiles from [0,''
                    @ fmt_d (sint tileYMax) @ '')'')];
             numTiles = tileXMax * tileYMax
         in
         case addTiles fuel e Grayscale uuidStr voxelProofDir zrange tileSz tileXMax tileYMax
                numTiles tr of
           (tr', Some st) \<Rightarrow> (tr', Some st)
         | (tr', None) \<Rightarrow>
             addTiles fuel e Labels uuidStr voxelProofDir zrange tileSz tileXMax tileYMax
               numTiles tr'))"

text \<open>
  \<open>main\<close> from the start of the server on. The deferred
  \<open>runCommand("dvid", "shutdown")\<close> runs when \<open>main\<close> returns and when it panics;
  \<open>os.Exit\<close>, which ends \<open>log.Fatal\<close> and \<open>log.Fatalf\<close>, leaves at once and runs no
  deferred call. The handler of the interrupt signal runs beside \<open>main\<close> and is not part
  of this sequential model.
\<close>

definition serveAndImport :: "nat \<Rightarrow> env \<Rightarrow> string \<Rightarrow> string \<Rightarrow> int32 \<times> int32 \<Rightarrow> int32 \<times> int32
    \<Rightarrow> string \<Rightarrow> event list \<Rightarrow> event list \<times> status" where
  "serveAndImport fuel e uuidStr voxelProofDir zrange tileSz outputDir tr =
     (let serve = [''dvid'', ''-datastore='' @ outputDir, ''serve''] in
      case cmdStart e tr serve of
        Some m \<Rightarrow> (tr @ [Start serve (Some m), Log m], Exited 1)
      | None \<Rightarrow>
          (let tr = tr @ [Start serve None, Print ''Making sure DVID server has started...'',
                     Sleep 3]
           in
           case importVolume fuel e uuidStr voxelProofDir zrange tileSz tr of
             (tr', None) \<Rightarrow> (fst (runCommand e tr' [''dvid'', ''shutdown'']), Exited 0)
           | (tr', Some (Panicked m)) \<Rightarrow>
               (fst (runCommand e tr' [''dvid'', ''shutdown'']), Panicked m)
           | (tr', Some st) \<Rightarrow> (tr', st)))"

text \<open>
  \<open>main\<close> up to the start of the server: the arguments, the two parsers, the new
  datastore. Reading \<open>args[3]\<close> of a shorter slice panics.
\<close>

definition main_voxelproof :: "nat \<Rightarrow> env \<Rightarrow> bool \<Rightarrow> string list \<Rightarrow> event list \<times> status" where
  "main_voxelproof fuel e help args =
     (if help then ([Usage], Exited 0)
      else if length args < 3 then ([Usage], Exited 2)
      else if length args < 4 then ([], Panicked ''index out of range'')
      else
        (let voxelProofDir = args ! 0; zrangeStr = args ! 1; tileSizeStr = args ! 2;
             outputDir = args ! 3;
             tr = [Print (''VoxelProof data directory: '' @ voxelProofDir)]
         in
         case point2d e zrangeStr of
           Inl m \<Rightarrow> (tr @ [Log m], Exited 1)
         | Inr zrange \<Rightarrow>
             (let tr = tr @ [Print (''Z range '' @ fmt_d (sint (fst zrange)) @ '' -> ''
                        @ fmt_d (sint (snd zrange)))]
              in
              case point2d e tileSizeStr of
                Inl m \<Rightarrow> (tr @ [Log m], Exited 1)
              | Inr tileSz \<Rightarrow>
                  (let tr = tr @ [Print (''Tile size: '' @ fmt_d (sint (fst tileSz)) @ '' x ''
                             @ fmt_d (sint (snd tileSz)) @ '' pixels''),
                             Print (''Output DVID database: '' @ outputDir)]
                   in
                   case initDatastore e tr outputDir of
                     (tr, Inl st) \<Rightarrow> (tr, st)
                   | (tr, Inr uuidStr) \<Rightarrow>
                       serveAndImport fuel e uuidStr voxelProofDir zrange tileSz outputDir
                         (tr @ [Print (''Initialized datastore with root version ''
                                  @ uuidStr @ ''.'')])))))"

section \<open>Reading a trace, and sample environments\<close>

text \<open>The commands run to completion, in the order they were issued.\<close>

fun execs :: "event list \<Rightarrow> string list list" where
  "execs [] = []"
| "execs (Exec args err # tr) = args # execs tr"
| "execs (ev # tr) = execs tr"

text \<open>A tile import is a command \<open>dvid <dataset> server-add <uuid> <offset> <file>\<close>.\<close>

definition isImport :: "string list \<Rightarrow> bool" where
  "isImport args = (length args = 6 \<and> args ! 0 = ''dvid'' \<and> args ! 2 = ''server-add'')"

text \<open>
  \<open>sampleEnv zrange tileSz failing\<close> is an environment for runs of the VoxelProof importer
  on concrete inputs: \<open>dvid init\<close> prints a greeting and then the line with the UUID
  \<open>abc\<close>; the range argument \<open>zr\<close> parses to \<open>zrange\<close> and the tile size argument \<open>ts\<close> to
  \<open>tileSz\<close>; every subprocess succeeds without output, but for the commands that start
  with the words \<open>failing\<close>, which return the error \<open>exit status 1\<close>.
\<close>

definition sampleEnv :: "int32 \<times> int32 \<Rightarrow> int32 \<times> int32 \<Rightarrow> string list \<Rightarrow> env" where
  "sampleEnv zrange tileSz failing =
     \<lparr> cmdOutput = (\<lambda>tr args.
          if failing \<noteq> [] \<and> take (length failing) args = failing
          then ([], Some ''exit status 1'') else ([], None)),
       cmdStart = (\<lambda>tr args. None),
       stdoutPipe = None,
       stdoutLines = [''DVID datastore'', ''Root node UUID: abc''],
       sscanfUUID = (\<lambda>line.
          if take 16 line = ''Root node UUID: '' \<and> drop 16 line \<noteq> []
          then Some (drop 16 line) else None),
       point2d = (\<lambda>s. if s = ''zr'' then Inr zrange
                       else if s = ''ts'' then Inr tileSz else Inl ''cannot parse''),
       point3d = (\<lambda>s. Inl ''cannot parse''),
       voxelCoord = (\<lambda>s. Inl ''cannot parse''),
       coordString = (\<lambda>c. []) \<rparr>"



text \<open>
  A failed tile import, a trace without one, and a run that a failed tile import has
  ended: nothing follows the failed command but its output, if it has any, and the line
  that \<open>log.Fatalf\<close> writes.
\<close>

fun failedImport :: "event \<Rightarrow> bool" where
  "failedImport (Exec args (Some m)) = isImport args"
| "failedImport ev = False"

definition clean :: "event list \<Rightarrow> bool" where
  "clean tr = list_all (\<lambda>ev. \<not> failedImport ev) tr"

definition halted :: "event list \<Rightarrow> status \<Rightarrow> bool" where
  "halted tr st =
     (\<exists>pre c m.
        isImport c \<and> clean pre \<and> st = Exited 1 \<and>
        (tr = pre @ [Exec c (Some m), Log (''Error in command: '' @ m)]
         \<or> (\<exists>out. tr = pre @ [Exec c (Some m), Print out, Log (''Error in command: '' @ m)])))"

text \<open>
  \<open>noCmdEv\<close> is an event that is neither a command run to completion nor a subprocess
  that could not be started.
\<close>

fun noCmdEv :: "event \<Rightarrow> bool" where
  "noCmdEv (Exec c r) = False"
| "noCmdEv (Start c (Some m)) = False"
| "noCmdEv ev = True"

definition noCmd :: "event list \<Rightarrow> bool" where
  "noCmd tr = list_all noCmdEv tr"

text \<open>
  The tile imports expected of the VoxelProof importer for a grid of 2 x 2 tiles of
  350 x 350 pixels and the three slices from \<open>zmin\<close> on, for the UUID \<open>abc\<close> and the
  directory \<open>/vp\<close>: slices in ascending order, in a slice the rows in ascending order,
  in a row the columns in ascending order; the third component of the offset is
  \<open>z - zmin\<close>.
\<close>

definition expectedCall :: "kind \<Rightarrow> int \<Rightarrow> int \<Rightarrow> int \<Rightarrow> int \<Rightarrow> string list" where
  "expectedCall k zmin z row col =
     [''dvid'', dataset k, ''server-add'', ''abc'',
      fmt_d (350 * col) @ '','' @ fmt_d (350 * row) @ '','' @ fmt_d (z - zmin),
      ''/vp/'' @ (case k of Grayscale \<Rightarrow> ''z/'' | Labels \<Rightarrow> ''comps/z/'') @ fmt_d z @ ''/''
        @ fmt_d row @ ''-'' @ fmt_d col @ ''.png'']"

definition expectedCalls :: "kind \<Rightarrow> int \<Rightarrow> string list list" where
  "expectedCalls k zmin =
     concat (map (\<lambda>z. concat (map (\<lambda>row. map (\<lambda>col. expectedCall k zmin z row col) [0, 1]) [0, 1]))
       [zmin, zmin + 1, zmin + 2])"

section \<open>Arithmetic of \<open>int32\<close> and of the decimal digits\<close>

lemma sint32_range: "- 2147483648 \<le> sint (x::int32) \<and> sint x < 2147483648"
  using sint_ge[of x] sint_lt[of x] by simp

lemma sint_word_of_int32:
  "- 2147483648 \<le> k \<Longrightarrow> k < 2147483648 \<Longrightarrow> sint (word_of_int k :: int32) = k"
  by (simp add: int_word_sint)

lemma sint_add32:
  "- 2147483648 \<le> sint a + sint b \<Longrightarrow> sint a + sint b < 2147483648 \<Longrightarrow>
     sint (a + b :: int32) = sint a + sint b"
  using sint_word_of_int32 [of "sint a + sint b"] by simp

lemma sint_mult32:
  "- 2147483648 \<le> sint a * sint b \<Longrightarrow> sint a * sint b < 2147483648 \<Longrightarrow>
     sint (a * b :: int32) = sint a * sint b"
  using sint_word_of_int32 [of "sint a * sint b"] by simp

lemma sint_succ32: "sint (a::int32) < 2147483647 \<Longrightarrow> sint (a + 1) = sint a + 1"
  using sint_add32 [of a 1] sint32_range [of a] by simp

lemma sdiv_nonneg: "0 \<le> k \<Longrightarrow> 0 < l \<Longrightarrow> (k::int) sdiv l = k div l"
  by (simp add: signed_divide_int_def sgn_if)

lemma div_le_self_int: "0 \<le> k \<Longrightarrow> 0 < l \<Longrightarrow> (k::int) div l \<le> k"
  by (metis div_by_1 int_one_le_iff_zero_less zdiv_mono2 zero_less_one)

lemma sint_div32_pos:
  assumes "0 \<le> sint a" "0 < sint b"
  shows "sint (div32 a b) = sint a div sint b"
proof -
  have "sint a div sint b \<le> sint a"
    using assms by (rule div_le_self_int)
  moreover have "0 \<le> sint a div sint b"
    using assms by (simp add: pos_imp_zdiv_nonneg_iff)
  ultimately show ?thesis
    using assms sint32_range [of a]
    by (simp add: div32_def sdiv_nonneg sint_word_of_int32)
qed

lemma digit_0: "digit 0 = CHR ''0''"
  by (simp add: digit_def)

lemma dec_one_digit: "n < 10 \<Longrightarrow> dec n = [digit n]"
  by (simp add: dec.simps)

lemma dec_two_digits: "10 \<le> n \<Longrightarrow> n < 100 \<Longrightarrow> dec n = [digit (n div 10), digit (n mod 10)]"
  by (subst dec.simps) (simp add: dec_one_digit)

lemma dec_three_digits:
  assumes "100 \<le> n" "n < 1000"
  shows "dec n = [digit (n div 100), digit (n div 10 mod 10), digit (n mod 10)]"
proof -
  have "n div 10 div 10 = n div 100"
    by (simp add: zdiv_zmult2_eq)
  moreover have "10 \<le> n div 10" "n div 10 < 100"
    using assms by simp_all
  ultimately show ?thesis
    using assms by (subst dec.simps) (simp add: dec_two_digits)
qed

lemma fmt_03d_digits:
  assumes "0 \<le> n" "n < 1000"
  shows "fmt_03d n = [digit (n div 100), digit (n div 10 mod 10), digit (n mod 10)]"
proof -
  consider "n < 10" | "10 \<le> n" "n < 100" | "100 \<le> n"
    by linarith
  then show ?thesis
  proof cases
    case 1
    with assms show ?thesis
      by (simp add: fmt_03d_def dec_one_digit digit_0 numeral_3_eq_3)
  next
    case 2
    with assms show ?thesis
      by (simp add: fmt_03d_def dec_two_digits digit_0 numeral_3_eq_3)
  next
    case 3
    with assms show ?thesis
      by (simp add: fmt_03d_def dec_three_digits)
  qed
qed

lemma dec_not_Nil: "dec n \<noteq> []"
  by (subst dec.simps) simp

lemma digit_nonzero:
  assumes "0 < n" "n < 10"
  shows "digit n \<noteq> CHR ''0''"
proof -
  obtain m where m: "nat n = Suc m" "m < 9"
    using assms by (cases "nat n") auto
  have "digit n = ''123456789'' ! m"
    by (simp add: digit_def m(1))
  moreover have "''123456789'' ! m \<in> set ''123456789''"
    using m(2) by (intro nth_mem) simp
  ultimately show ?thesis
    by auto
qed

lemma dec_no_leading_zero: "0 < n \<Longrightarrow> hd (dec n) \<noteq> CHR ''0''"
proof (induction n rule: dec.induct)
  case (1 n)
  show ?case
  proof (cases "n < 10")
    case True
    with 1 show ?thesis
      by (simp add: dec_one_digit digit_nonzero)
  next
    case False
    then have "0 < n div 10" by simp
    with 1 False have "hd (dec (n div 10)) \<noteq> CHR ''0''" by simp
    with False show ?thesis
      by (subst dec.simps) (simp add: dec_not_Nil)
  qed
qed

lemma sliceDir_floor:
  assumes "1000 \<le> sint (z::int32)"
  shows "sint (div32 z 1000 * 1000) = sint z div 1000 * 1000"
proof -
  have d: "sint (div32 z 1000) = sint z div 1000"
    using assms sint_div32_pos [of z 1000] by simp
  have "sint z div 1000 * 1000 \<le> sint z"
    by (simp add: mult.commute)
  moreover have "0 \<le> sint z div 1000 * 1000"
    using assms by simp
  ultimately show ?thesis
    using sint_mult32 [of "div32 z 1000" 1000] d sint32_range [of z] by simp
qed

section \<open>Tile paths of the tile-server importer\<close>

text \<open>
  C6. The path of a tile of the tile-server importer, relative to the tiles directory,
  is \<open>1024/0/<row>/<col>/<kind>/...\<close> with kind \<open>s\<close> for superpixels and \<open>g\<close> for
  grayscale. For a slice \<open>z\<close> from 1000 on, the directory \<open>floor(z/1000)*1000\<close> is
  inserted and \<open>z\<close> is written without leading zeros; for \<open>0 \<le> z < 1000\<close> there is no
  such directory and \<open>z\<close> is written with exactly three digits. Row 2, column 3,
  slice 1500, grayscale gives \<open>1024/0/2/3/g/1000/1500.png\<close>; row 2, column 3, slice 42,
  superpixel gives \<open>1024/0/2/3/s/042.png\<close>.
\<close>

theorem tileFilename_layout:
  assumes "0 \<le> sint z"
  shows "tileFilename row col z sp =
           ''1024/0/'' @ fmt_d (sint row) @ ''/'' @ fmt_d (sint col) @ ''/''
             @ (if sp then ''s'' else ''g'') @ ''/''
             @ (if 1000 \<le> sint z
                then fmt_d (sint z div 1000 * 1000) @ ''/'' @ fmt_d (sint z)
                else [digit (sint z div 100), digit (sint z div 10 mod 10), digit (sint z mod 10)])
             @ ''.png''
         \<and> (if 1000 \<le> sint z then hd (fmt_d (sint z)) \<noteq> CHR ''0'' else True)
         \<and> tileFilename 2 3 1500 False = ''1024/0/2/3/g/1000/1500.png''
         \<and> tileFilename 2 3 42 True = ''1024/0/2/3/s/042.png''"
proof -
  have t: "fmt_d (sint tileSize) = ''1024''"
    by code_simp
  have a: "tileFilename row col z sp =
           ''1024/0/'' @ fmt_d (sint row) @ ''/'' @ fmt_d (sint col) @ ''/''
             @ (if sp then ''s'' else ''g'') @ ''/''
             @ (if 1000 \<le> sint z
                then fmt_d (sint z div 1000 * 1000) @ ''/'' @ fmt_d (sint z)
                else [digit (sint z div 100), digit (sint z div 10 mod 10), digit (sint z mod 10)])
             @ ''.png''"
    using assms by (simp add: tileFilename_def t sliceDir_floor fmt_03d_digits)
  have b: "1000 \<le> sint z \<Longrightarrow> hd (fmt_d (sint z)) \<noteq> CHR ''0''"
    by (simp add: fmt_d_def dec_no_leading_zero)
  have c: "tileFilename 2 3 1500 False = ''1024/0/2/3/g/1000/1500.png''"
    by code_simp
  have d: "tileFilename 2 3 42 True = ''1024/0/2/3/s/042.png''"
    by code_simp
  from a b c d show ?thesis by simp
qed

theorem tileFilename_layout_witness:
  "0 \<le> sint (42 :: int32) \<and> tileFilename 7 9 42 True = ''1024/0/7/9/s/042.png''
   \<and> tileFilename 7 9 2042 False = ''1024/0/7/9/g/2000/2042.png''"
proof -
  have h: "0 \<le> sint (42 :: int32)" "0 \<le> sint (2042 :: int32)" by simp_all
  have x: "fmt_d 7 = ''7''" "fmt_d 9 = ''9''" "fmt_d 2000 = ''2000''" "fmt_d 2042 = ''2042''"
    "digit 0 = CHR ''0''" "digit 4 = CHR ''4''" "digit 2 = CHR ''2''"
    by code_simp+
  show ?thesis
    using h tileFilename_layout [OF h(1), of 7 9 True] tileFilename_layout [OF h(2), of 7 9 False]
    by (simp add: x)
qed


section \<open>Tile paths of the VoxelProof importer\<close>

text \<open>
  C1. For the VoxelProof importer the claim expects the grayscale tile of row 1, column 4,
  slice 10 at \<open><root>/z/10/1-4.jpg\<close> and the label tile at
  \<open><root>/comps/z/10/1-4.png\<close>, as the layout in the head of the source file says. The
  code builds both file names with the extension \<open>.png\<close>: the label path is the expected
  one, the grayscale path is not.
\<close>

theorem tilepath_at_1_4_10:
  "tilepath Grayscale ''/root'' 10 1 4 = ''/root/z/10/1-4.png''
   \<and> tilepath Labels ''/root'' 10 1 4 = ''/root/comps/z/10/1-4.png''"
  by code_simp

section \<open>Too few arguments\<close>

text \<open>
  C2. With fewer positional arguments than it needs, a driver should print the usage
  and exit with code 2 before it does anything. The tile-server importer does so below
  five arguments, and the VoxelProof importer below three. With exactly three
  arguments the VoxelProof importer, which reads four, passes its test \<open>len(args) < 3\<close>
  and panics on \<open>args[3]\<close>: no usage is printed.
\<close>

theorem missing_arguments:
  "main_voxelproof fuel e False [a, b, c] = ([], Panicked ''index out of range'')
   \<and> main_voxelproof fuel e False (take 2 args) = ([Usage], Exited 2)
   \<and> main_raveler fuel e (fl\<lparr>showHelp := False\<rparr>) (take 4 args) = ([Usage], Exited 2)"
  by (simp add: main_voxelproof_def main_raveler_def min_def)

section \<open>Reading the UUID from the output of \<open>dvid init\<close>\<close>

lemma readLoop_find:
  "readLoop e ls =
     (case find (\<lambda>l. sscanfUUID e l \<noteq> None) ls of
        None \<Rightarrow> None
      | Some l \<Rightarrow> sscanfUUID e l)"
  by (induction ls) (auto split: option.splits)

lemma find_Some_sat: "find P xs = Some x \<Longrightarrow> P x"
  by (induction xs) (auto split: if_splits)

text \<open>
  C7. Once \<open>dvid init\<close> is started, its standard output is scanned line by line. The
  first line on which \<open>Sscanf\<close> with the pattern \<open>Root node UUID: %s\<close> succeeds gives the
  UUID that \<open>initDatastore\<close> returns; if the lines end before any of them matches, the
  run is ended by \<open>log.Fatalln\<close> with the message
  \<open>Did not detect root version UUID in output of dvid init!\<close>.
\<close>

theorem initDatastore_first_match:
  assumes "stdoutPipe e = None"
    and "cmdStart e tr [''dvid'', ''-datastore='' @ outputDir, ''init''] = None"
  shows "initDatastore e tr outputDir =
     (case find (\<lambda>line. sscanfUUID e line \<noteq> None) (stdoutLines e) of
        None \<Rightarrow>
          (tr @ [Start [''dvid'', ''-datastore='' @ outputDir, ''init''] None,
                 Log ''Did not detect root version UUID in output of dvid init!''],
           Inl (Exited 1))
      | Some line \<Rightarrow>
          (tr @ [Start [''dvid'', ''-datastore='' @ outputDir, ''init''] None],
           Inr (the (sscanfUUID e line))))"
proof (cases "find (\<lambda>line. sscanfUUID e line \<noteq> None) (stdoutLines e)")
  case None
  with assms show ?thesis
    by (simp add: initDatastore_def readLoop_find)
next
  case (Some line)
  then have "sscanfUUID e line \<noteq> None"
    by (rule find_Some_sat)
  with Some assms show ?thesis
    by (auto simp: initDatastore_def readLoop_find)
qed

theorem initDatastore_first_match_witness:
  "initDatastore (sampleEnv (0, 2) (350, 350) []) [] ''/out''
     = ([Start [''dvid'', ''-datastore=/out'', ''init''] None], Inr ''abc'')
   \<and> initDatastore (sampleEnv (0, 2) (350, 350) []\<lparr>stdoutLines := [''DVID datastore'']\<rparr>) [] ''/out''
     = ([Start [''dvid'', ''-datastore=/out'', ''init''] None,
         Log ''Did not detect root version UUID in output of dvid init!''], Inl (Exited 1))"
  using initDatastore_first_match [of "sampleEnv (0, 2) (350, 350) []" "[]" "''/out''"]
    initDatastore_first_match
      [of "sampleEnv (0, 2) (350, 350) []\<lparr>stdoutLines := [''DVID datastore'']\<rparr>" "[]" "''/out''"]
  by (simp add: sampleEnv_def)

section \<open>Loops and fuel\<close>

text \<open>
  A run that did not stop for lack of fuel is the same with more fuel, and an invariant
  of the body of a loop is an invariant of the loop.
\<close>

lemma forLoop_more_fuel:
  assumes "snd (forLoop n cond body i s) \<noteq> Some OutOfFuel"
    and "\<And>j t. snd (body j t) \<noteq> Some OutOfFuel \<Longrightarrow> body' j t = body j t"
    and "n \<le> m"
  shows "forLoop m cond body' i s = forLoop n cond body i s"
  using assms(1,3)
proof (induction n arbitrary: m i s)
  case 0
  then show ?case by simp
next
  case (Suc n)
  then obtain m' where m: "m = Suc m'" "n \<le> m'"
    by (cases m) auto
  show ?case
  proof (cases "cond i")
    case False
    then show ?thesis by (simp add: m)
  next
    case True
    obtain s' r where b: "body i s = (s', r)"
      by (cases "body i s")
    show ?thesis
    proof (cases r)
      case None
      with b have "body' i s = (s', None)"
        using assms(2) [of i s] by simp
      moreover have "snd (forLoop n cond body (i + 1) s') \<noteq> Some OutOfFuel"
        using Suc.prems(1) True b None by simp
      ultimately show ?thesis
        using True b None m Suc.IH [of "i + 1" s' m'] by simp
    next
      case (Some st)
      with Suc.prems(1) True b have "st \<noteq> OutOfFuel" by auto
      with b Some have "body' i s = (s', Some st)"
        using assms(2) [of i s] by simp
      with True b Some m show ?thesis by simp
    qed
  qed
qed

lemma forLoop_inv:
  assumes init: "P s"
    and step: "\<And>j t t'. P t \<Longrightarrow> cond j \<Longrightarrow> body j t = (t', None) \<Longrightarrow> P t'"
    and stop: "\<And>j t t' st. P t \<Longrightarrow> cond j \<Longrightarrow> body j t = (t', Some st) \<Longrightarrow> Q t' st"
    and fuel: "\<And>t. P t \<Longrightarrow> Q t OutOfFuel"
  shows "case forLoop n cond body i s of (s', None) \<Rightarrow> P s' | (s', Some st) \<Rightarrow> Q s' st"
  using init
proof (induction n arbitrary: i s)
  case 0
  then show ?case by (simp add: fuel)
next
  case (Suc n)
  show ?case
  proof (cases "cond i")
    case False
    with Suc.prems show ?thesis by simp
  next
    case True
    obtain s' r where b: "body i s = (s', r)"
      by (cases "body i s")
    show ?thesis
    proof (cases r)
      case None
      with b True Suc.prems have "P s'" by (auto intro: step)
      then show ?thesis
        using Suc.IH [of s' "i + 1"] True b None by simp
    next
      case (Some st)
      with b True Suc.prems have "Q s' st" by (auto intro: stop)
      with True b Some show ?thesis by simp
    qed
  qed
qed

lemma addTiles_more_fuel:
  assumes "snd (addTiles n e k u d zr ts xm ym nt tr) \<noteq> Some OutOfFuel" and "n \<le> m"
  shows "addTiles m e k u d zr ts xm ym nt tr = addTiles n e k u d zr ts xm ym nt tr"
  unfolding addTiles_def
proof (rule forLoop_more_fuel [OF _ _ assms(2)], goal_cases)
  case 1
  show ?case using assms(1) unfolding addTiles_def .
next
  case (2 z t)
  let ?x = "\<lambda>y. forLoop n (\<lambda>x. sint x < sint xm)
              (\<lambda>x tr. runOrFatal e tr [''dvid'', dataset k, ''server-add'', u, offsetStr zr ts z y x, tilepath k d z y x]) 0"
  let ?x' = "\<lambda>y. forLoop m (\<lambda>x. sint x < sint xm)
              (\<lambda>x tr. runOrFatal e tr [''dvid'', dataset k, ''server-add'', u, offsetStr zr ts z y x, tilepath k d z y x]) 0"
  have inner: "snd (?x y t') \<noteq> Some OutOfFuel \<Longrightarrow> ?x' y t' = ?x y t'" for y t'
    by (rule forLoop_more_fuel [OF _ _ assms(2)]) simp_all
  have "snd (forLoop n (\<lambda>y. sint y < sint ym) ?x 0 t) \<noteq> Some OutOfFuel"
    using 2 by (auto split: prod.splits option.splits)
  then have "forLoop m (\<lambda>y. sint y < sint ym) ?x' 0 t = forLoop n (\<lambda>y. sint y < sint ym) ?x 0 t"
    by (rule forLoop_more_fuel [OF _ inner assms(2)])
  then show ?case by simp
qed

lemma importVolume_more_fuel:
  assumes "snd (importVolume n e u d zr ts tr) \<noteq> Some OutOfFuel" and "n \<le> m"
  shows "importVolume m e u d zr ts tr = importVolume n e u d zr ts tr"
  using assms(1)
  by (auto simp: importVolume_def Let_def addTiles_more_fuel [OF _ assms(2)]
      split: prod.splits option.splits if_splits)

lemma serveAndImport_more_fuel:
  assumes "snd (serveAndImport n e u d zr ts out tr) \<noteq> OutOfFuel" and "n \<le> m"
  shows "serveAndImport m e u d zr ts out tr = serveAndImport n e u d zr ts out tr"
  using assms(1)
  by (auto simp: serveAndImport_def Let_def importVolume_more_fuel [OF _ assms(2)]
      split: prod.splits option.splits status.splits)

lemma main_voxelproof_more_fuel:
  assumes "snd (main_voxelproof n e help args) \<noteq> OutOfFuel" and "n \<le> m"
  shows "main_voxelproof m e help args = main_voxelproof n e help args"
  using assms(1)
  by (auto simp: main_voxelproof_def Let_def serveAndImport_more_fuel [OF _ assms(2)]
      split: prod.splits sum.splits)


lemma addSlice_more_fuel:
  assumes "snd (addSlice n e fl ds u d sx ex sy ey z tr) \<noteq> Some OutOfFuel" and "n \<le> m"
  shows "addSlice m e fl ds u d sx ex sy ey z tr = addSlice n e fl ds u d sx ex sy ey z tr"
proof -
  let ?b = "\<lambda>tileY tileX (tr, numTiles :: int).
               case tileBody e fl ds u d z tileY tileX tr of
                 (tr', None) \<Rightarrow> ((tr', numTiles + 1), None)
               | (tr', Some st) \<Rightarrow> ((tr', numTiles), Some st)"
  let ?x = "\<lambda>k tileY. forLoop k (\<lambda>tileX. sint tileX \<le> sint ex) (?b tileY) sx"
  let ?y = "\<lambda>k. forLoop k (\<lambda>tileY. sint tileY \<le> sint ey) (?x k) sy (tr, 0)"
  have inner: "snd (?x n y t) \<noteq> Some OutOfFuel \<Longrightarrow> ?x m y t = ?x n y t" for y t
    by (rule forLoop_more_fuel [OF _ _ assms(2)]) simp_all
  have "snd (?y n) \<noteq> Some OutOfFuel"
    using assms(1) unfolding addSlice_def by (auto split: prod.splits option.splits)
  then have "?y m = ?y n"
    by (rule forLoop_more_fuel [OF _ inner assms(2)])
  then show ?thesis
    unfolding addSlice_def by simp
qed

lemma main_raveler_more_fuel:
  assumes "snd (main_raveler n e fl args) \<noteq> OutOfFuel" and "n \<le> m"
  shows "main_raveler m e fl args = main_raveler n e fl args"
proof -
  have loop: "forLoop m c (addSlice m e fl ds u d sx ex sy ey) i tr
                = forLoop n c (addSlice n e fl ds u d sx ex sy ey) i tr"
    if "snd (forLoop n c (addSlice n e fl ds u d sx ex sy ey) i tr) \<noteq> Some OutOfFuel"
    for c ds u d sx ex sy ey i tr
    using that by (rule forLoop_more_fuel [OF _ addSlice_more_fuel [OF _ assms(2)] assms(2)])
  show ?thesis
    using assms(1)
    by (auto simp: main_raveler_def Let_def loop split: prod.splits sum.splits option.splits)
qed

section \<open>The order of the tile imports of the VoxelProof importer\<close>

text \<open>
  C9. With the slices 0 to 2 and a grid of 2 x 2 tiles the VoxelProof importer, given
  fuel for four iterations or more, runs to its end and issues, after the two dataset
  commands, exactly 12 grayscale imports and then exactly 12 label imports, each group
  in ascending order of the slices with the rows outside and the columns inside, and
  then the shutdown. The third component of every offset is \<open>z - zmin\<close>: with the slices
  5 to 7 it is 0 for slice 5 and 2 for slice 7.
\<close>

theorem volume_import_order:
  "main_voxelproof (4 + n) (sampleEnv (0, 2) (350, 350) []) False [''/vp'', ''zr'', ''ts'', ''/out'']
     = main_voxelproof 4 (sampleEnv (0, 2) (350, 350) []) False [''/vp'', ''zr'', ''ts'', ''/out'']
   \<and> snd (main_voxelproof 4 (sampleEnv (0, 2) (350, 350) []) False [''/vp'', ''zr'', ''ts'', ''/out''])
     = Exited 0
   \<and> execs (fst (main_voxelproof 4 (sampleEnv (0, 2) (350, 350) []) False
        [''/vp'', ''zr'', ''ts'', ''/out'']))
     = [[''dvid'', ''dataset'', ''grayscale'', ''grayscale8''],
        [''dvid'', ''dataset'', ''labels'', ''labels32'']]
       @ expectedCalls Grayscale 0 @ expectedCalls Labels 0 @ [[''dvid'', ''shutdown'']]
   \<and> execs (fst (main_voxelproof 4 (sampleEnv (5, 7) (350, 350) []) False
        [''/vp'', ''zr'', ''ts'', ''/out'']))
     = [[''dvid'', ''dataset'', ''grayscale'', ''grayscale8''],
        [''dvid'', ''dataset'', ''labels'', ''labels32'']]
       @ expectedCalls Grayscale 5 @ expectedCalls Labels 5 @ [[''dvid'', ''shutdown'']]
   \<and> length (expectedCalls Grayscale 0) = 12 \<and> length (expectedCalls Labels 0) = 12
   \<and> expectedCall Grayscale 5 5 1 0 = [''dvid'', ''grayscale'', ''server-add'', ''abc'',
         ''0,350,0'', ''/vp/z/5/1-0.png'']
   \<and> expectedCall Labels 5 7 0 1 = [''dvid'', ''labels'', ''server-add'', ''abc'',
         ''350,0,2'', ''/vp/comps/z/7/0-1.png'']"
proof -
  let ?a = "[''/vp'', ''zr'', ''ts'', ''/out'']"
  have a: "snd (main_voxelproof 4 (sampleEnv (0, 2) (350, 350) []) False ?a) = Exited 0"
    by code_simp
  have a': "main_voxelproof (4 + n) (sampleEnv (0, 2) (350, 350) []) False ?a
              = main_voxelproof 4 (sampleEnv (0, 2) (350, 350) []) False ?a"
    by (rule main_voxelproof_more_fuel)
      (simp_all only: a le_add1 status.distinct not_False_eq_True)
  have c: "execs (fst (main_voxelproof 4 (sampleEnv (0, 2) (350, 350) []) False ?a))
     = [[''dvid'', ''dataset'', ''grayscale'', ''grayscale8''],
        [''dvid'', ''dataset'', ''labels'', ''labels32'']]
       @ expectedCalls Grayscale 0 @ expectedCalls Labels 0 @ [[''dvid'', ''shutdown'']]"
    by code_simp
  have d: "execs (fst (main_voxelproof 4 (sampleEnv (5, 7) (350, 350) []) False ?a))
     = [[''dvid'', ''dataset'', ''grayscale'', ''grayscale8''],
        [''dvid'', ''dataset'', ''labels'', ''labels32'']]
       @ expectedCalls Grayscale 5 @ expectedCalls Labels 5 @ [[''dvid'', ''shutdown'']]"
    by code_simp
  have e: "length (expectedCalls Grayscale 0) = 12" "length (expectedCalls Labels 0) = 12"
    by code_simp+
  have f: "expectedCall Grayscale 5 5 1 0 = [''dvid'', ''grayscale'', ''server-add'', ''abc'',
         ''0,350,0'', ''/vp/z/5/1-0.png'']"
    "expectedCall Labels 5 7 0 1 = [''dvid'', ''labels'', ''server-add'', ''abc'',
         ''350,0,2'', ''/vp/comps/z/7/0-1.png'']"
    by code_simp+
  from a a' c d e f show ?thesis
    by blast
qed

section \<open>A fatal error and the shutdown of the server\<close>

text \<open>
  C4. In the VoxelProof importer the server should be shut down however the run ends;
  the source says so where it defers the shutdown command. When a tile import fails,
  \<open>log.Fatalf\<close> ends the process through \<open>os.Exit\<close>, and no deferred call runs: the run
  below, in which the first grayscale import fails, ends with the line of the log and
  exit code 1, and no shutdown command is issued.
\<close>

theorem fatal_import_without_shutdown:
  "main_voxelproof (1 + n) (sampleEnv (0, 2) (350, 350) [''dvid'', ''grayscale'', ''server-add''])
     False [''/vp'', ''zr'', ''ts'', ''/out'']
   = ([Print ''VoxelProof data directory: /vp'', Print ''Z range 0 -> 2'',
       Print ''Tile size: 350 x 350 pixels'',
       Print ''Output DVID database: /out'',
       Start [''dvid'', ''-datastore=/out'', ''init''] None,
       Print ''Initialized datastore with root version abc.'',
       Start [''dvid'', ''-datastore=/out'', ''serve''] None,
       Print ''Making sure DVID server has started...'', Sleep 3,
       Exec [''dvid'', ''dataset'', ''grayscale'', ''grayscale8''] None,
       Exec [''dvid'', ''dataset'', ''labels'', ''labels32''] None,
       Print ''X Tiles from [0,2), Y Tiles from [0,2)'',
       Exec [''dvid'', ''grayscale'', ''server-add'', ''abc'', ''0,0,0'', ''/vp/z/0/0-0.png'']
         (Some ''exit status 1''),
       Log ''Error in command: exit status 1''],
      Exited 1)"
proof -
  let ?e = "sampleEnv (0, 2) (350, 350) [''dvid'', ''grayscale'', ''server-add'']"
  let ?a = "[''/vp'', ''zr'', ''ts'', ''/out'']"
  have a: "snd (main_voxelproof 1 ?e False ?a) = Exited 1"
    by code_simp
  have "main_voxelproof (1 + n) ?e False ?a = main_voxelproof 1 ?e False ?a"
    by (rule main_voxelproof_more_fuel)
      (simp_all only: a le_add1 status.distinct not_False_eq_True)
  also have "\<dots> = ([Print ''VoxelProof data directory: /vp'', Print ''Z range 0 -> 2'',
       Print ''Tile size: 350 x 350 pixels'',
       Print ''Output DVID database: /out'',
       Start [''dvid'', ''-datastore=/out'', ''init''] None,
       Print ''Initialized datastore with root version abc.'',
       Start [''dvid'', ''-datastore=/out'', ''serve''] None,
       Print ''Making sure DVID server has started...'', Sleep 3,
       Exec [''dvid'', ''dataset'', ''grayscale'', ''grayscale8''] None,
       Exec [''dvid'', ''dataset'', ''labels'', ''labels32''] None,
       Print ''X Tiles from [0,2), Y Tiles from [0,2)'',
       Exec [''dvid'', ''grayscale'', ''server-add'', ''abc'', ''0,0,0'', ''/vp/z/0/0-0.png'']
         (Some ''exit status 1''),
       Log ''Error in command: exit status 1''],
      Exited 1)"
    by code_simp
  finally show ?thesis .
qed

section \<open>Invariants of the import loops\<close>


lemma runOrFatal_inv:
  assumes ok: "\<And>out. P (if out \<noteq> [] then t @ [Exec args None, Print out] else t @ [Exec args None])"
    and bad: "\<And>out m.
             Q ((if out \<noteq> [] then t @ [Exec args (Some m), Print out] else t @ [Exec args (Some m)])
                  @ [Log (''Error in command: '' @ m)]) (Exited 1)"
  shows "case runOrFatal e t args of (t', None) \<Rightarrow> P t' | (t', Some st) \<Rightarrow> Q t' st"
proof (cases "cmdOutput e t args")
  case (Pair out err)
  show ?thesis
  proof (cases err)
    case None
    with Pair ok [of out] show ?thesis
      by (simp add: runOrFatal_def runCommand_def)
  next
    case (Some m)
    with Pair bad [of out m] show ?thesis
      by (simp add: runOrFatal_def runCommand_def)
  qed
qed

lemma addTiles_inv:
  assumes init: "P tr"
    and call: "\<And>t args. P t \<Longrightarrow> isImport args \<Longrightarrow>
                 (case runOrFatal e t args of (t', None) \<Rightarrow> P t' | (t', Some st) \<Rightarrow> Q t' st)"
    and print: "\<And>t l. P t \<Longrightarrow> P (t @ [Print l])"
    and fuel: "\<And>t. P t \<Longrightarrow> Q t OutOfFuel"
  shows "case addTiles n e k u d zr ts xm ym nt tr of
           (t', None) \<Rightarrow> P t' | (t', Some st) \<Rightarrow> Q t' st"
proof -
  let ?args = "\<lambda>z y x. [''dvid'', dataset k, ''server-add'', u, offsetStr zr ts z y x, tilepath k d z y x]"
  let ?xl = "\<lambda>z y. forLoop n (\<lambda>x. sint x < sint xm) (\<lambda>x tr. runOrFatal e tr (?args z y x)) 0"
  let ?yl = "\<lambda>z. forLoop n (\<lambda>y. sint y < sint ym) (?xl z) 0"
  have imp: "isImport (?args z y x)" for z y x
    by (simp add: isImport_def)
  have x: "case ?xl z y t of (t', None) \<Rightarrow> P t' | (t', Some st) \<Rightarrow> Q t' st" if "P t" for z y t
  proof (rule forLoop_inv [where P = P and Q = Q, OF that _ _ fuel])
    fix j t1 t'
    assume "P t1" "runOrFatal e t1 (?args z y j) = (t', None)"
    then show "P t'" using call [OF _ imp, of t1 z y j] by simp
  next
    fix j t1 t' st
    assume "P t1" "runOrFatal e t1 (?args z y j) = (t', Some st)"
    then show "Q t' st" using call [OF _ imp, of t1 z y j] by simp
  qed
  have y: "case ?yl z t of (t', None) \<Rightarrow> P t' | (t', Some st) \<Rightarrow> Q t' st" if "P t" for z t
  proof (rule forLoop_inv [where P = P and Q = Q, OF that _ _ fuel])
    fix j t1 t'
    assume "P t1" "?xl z j t1 = (t', None)"
    then show "P t'" using x [of t1 z j] by simp
  next
    fix j t1 t' st
    assume "P t1" "?xl z j t1 = (t', Some st)"
    then show "Q t' st" using x [of t1 z j] by simp
  qed
  show ?thesis
    unfolding addTiles_def
  proof (rule forLoop_inv [where P = P and Q = Q, OF init _ _ fuel])
    fix j t1 t'
    assume p: "P t1"
      and b: "(case ?yl j t1 of
                 (tr', None) \<Rightarrow> (tr' @ [Print (addedLine (sint nt) (progressWord k) (sint j))], None)
               | (tr', Some st) \<Rightarrow> (tr', Some st)) = (t', None)"
    then show "P t'" using y [OF p, of j]
      by (auto split: prod.splits option.splits intro: print)
  next
    fix j t1 t' st
    assume p: "P t1"
      and b: "(case ?yl j t1 of
                 (tr', None) \<Rightarrow> (tr' @ [Print (addedLine (sint nt) (progressWord k) (sint j))], None)
               | (tr', Some st) \<Rightarrow> (tr', Some st)) = (t', Some st)"
    then show "Q t' st" using y [OF p, of j]
      by (auto split: prod.splits option.splits)
  qed
qed

lemma tileBody_inv:
  assumes init: "P t"
    and call: "\<And>t args. P t \<Longrightarrow> isImport args \<Longrightarrow>
                 (case runOrFatal e t args of (t', None) \<Rightarrow> P t' | (t', Some st) \<Rightarrow> Q t' st)"
  shows "case tileBody e fl ds u d z y x t of (t', None) \<Rightarrow> P t' | (t', Some st) \<Rightarrow> Q t' st"
proof -
  let ?off = "fmt_d (sint (x * tileSize)) @ '','' @ fmt_d (sint (y * tileSize)) @ '','' @ fmt_d (sint z)"
  let ?a = "\<lambda>sp. [''dvid'', ds, ''server-add'', u, ?off, Join [d, tileFilename y x z sp]]"
  have imp: "isImport (?a sp)" for sp
    by (simp add: isImport_def)
  let ?first = "if loadSuperpixels fl then runOrFatal e t (?a True) else (t, None)"
  have f: "case ?first of (t', None) \<Rightarrow> P t' | (t', Some st) \<Rightarrow> Q t' st"
    using call [OF init imp, of True] init by simp
  obtain t1 r1 where r: "?first = (t1, r1)"
    by (cases ?first)
  have tb: "tileBody e fl ds u d z y x t =
          (case ?first of
             (tr1, Some st) \<Rightarrow> (tr1, Some st)
           | (tr1, None) \<Rightarrow> (if loadGrayscale fl then runOrFatal e tr1 (?a False) else (tr1, None)))"
    unfolding tileBody_def Let_def ..
  show ?thesis
  proof (cases r1)
    case (Some st)
    with f r show ?thesis unfolding tb by simp
  next
    case None
    with f r have p1: "P t1" by simp
    show ?thesis
      unfolding tb r None using call [OF p1 imp, of False] p1 by simp
  qed
qed

lemma addSlice_inv:
  assumes init: "P tr"
    and call: "\<And>t args. P t \<Longrightarrow> isImport args \<Longrightarrow>
                 (case runOrFatal e t args of (t', None) \<Rightarrow> P t' | (t', Some st) \<Rightarrow> Q t' st)"
    and print: "\<And>t l. P t \<Longrightarrow> P (t @ [Print l])"
    and fuel: "\<And>t. P t \<Longrightarrow> Q t OutOfFuel"
  shows "case addSlice n e fl ds u d sx ex sy ey z tr of
           (t', None) \<Rightarrow> P t' | (t', Some st) \<Rightarrow> Q t' st"
proof -
  let ?P = "\<lambda>s :: event list \<times> int. P (fst s)"
  let ?Q = "\<lambda>(s :: event list \<times> int) st. Q (fst s) st"
  let ?b = "\<lambda>tileY tileX (tr, numTiles :: int).
               case tileBody e fl ds u d z tileY tileX tr of
                 (tr', None) \<Rightarrow> ((tr', numTiles + 1), None)
               | (tr', Some st) \<Rightarrow> ((tr', numTiles), Some st)"
  let ?xl = "\<lambda>tileY. forLoop n (\<lambda>tileX. sint tileX \<le> sint ex) (?b tileY) sx"
  let ?yl = "forLoop n (\<lambda>tileY. sint tileY \<le> sint ey) ?xl sy (tr, 0)"
  have f: "?Q s OutOfFuel" if "?P s" for s
    using that by (simp add: fuel)
  have x: "case ?xl y s of (s', None) \<Rightarrow> ?P s' | (s', Some st) \<Rightarrow> ?Q s' st" if "?P s" for y s
  proof (rule forLoop_inv [where P = ?P and Q = ?Q, OF that _ _ f])
    fix j s1 s'
    assume "?P s1" "?b y j s1 = (s', None)"
    then show "?P s'" using tileBody_inv [where P = P and Q = Q, OF _ call, of "fst s1" fl ds u d z y j]
      by (auto split: prod.splits option.splits)
  next
    fix j s1 s' st
    assume "?P s1" "?b y j s1 = (s', Some st)"
    then show "?Q s' st" using tileBody_inv [where P = P and Q = Q, OF _ call, of "fst s1" fl ds u d z y j]
      by (auto split: prod.splits option.splits)
  qed
  have y: "case ?yl of (s', None) \<Rightarrow> ?P s' | (s', Some st) \<Rightarrow> ?Q s' st"
  proof (rule forLoop_inv [where P = ?P and Q = ?Q, OF _ _ _ f])
    show "?P (tr, 0)" using init by simp
  next
    fix j s1 s'
    assume "?P s1" "?xl j s1 = (s', None)"
    then show "?P s'" using x [of s1 j] by simp
  next
    fix j s1 s' st
    assume "?P s1" "?xl j s1 = (s', Some st)"
    then show "?Q s' st" using x [of s1 j] by simp
  qed
  show ?thesis
    unfolding addSlice_def using y
    by (auto split: prod.splits option.splits intro: print)
qed

lemma importVolume_inv:
  assumes init: "P tr"
    and call: "\<And>t args. P t \<Longrightarrow> isImport args \<Longrightarrow>
                 (case runOrFatal e t args of (t', None) \<Rightarrow> P t' | (t', Some st) \<Rightarrow> Q t' st)"
    and print: "\<And>t l. P t \<Longrightarrow> P (t @ [Print l])"
    and fuel: "\<And>t. P t \<Longrightarrow> Q t OutOfFuel"
    and other: "\<And>t c. P t \<Longrightarrow>
                 c = [''dvid'', ''dataset'', ''grayscale'', ''grayscale8'']
                 \<or> c = [''dvid'', ''dataset'', ''labels'', ''labels32''] \<Longrightarrow>
                 P (fst (runCommand e t c))"
    and panic: "\<And>t m. P t \<Longrightarrow> Q t (Panicked m)"
  shows "case importVolume n e u d zr ts tr of
           (t', None) \<Rightarrow> P t' | (t', Some st) \<Rightarrow> Q t' st"
proof -
  let ?t1 = "fst (runCommand e tr [''dvid'', ''dataset'', ''grayscale'', ''grayscale8''])"
  let ?t2 = "fst (runCommand e ?t1 [''dvid'', ''dataset'', ''labels'', ''labels32''])"
  have p2: "P ?t2"
    by (intro other init) simp_all
  show ?thesis
  proof (cases "fst ts = 0 \<or> snd ts = 0")
    case True
    then show ?thesis
      using panic [OF p2] by (simp add: importVolume_def Let_def)
  next
    case False
    let ?xm = "div32 700 (fst ts)" and ?ym = "div32 700 (snd ts)"
    let ?t3 = "?t2 @ [Print (''X Tiles from [0,'' @ fmt_d (sint ?xm) @ ''), Y Tiles from [0,''
                    @ fmt_d (sint ?ym) @ '')'')]"
    let ?g = "addTiles n e Grayscale u d zr ts ?xm ?ym (?xm * ?ym) ?t3"
    have iv: "importVolume n e u d zr ts tr =
            (case ?g of (tr', Some st) \<Rightarrow> (tr', Some st)
             | (tr', None) \<Rightarrow> addTiles n e Labels u d zr ts ?xm ?ym (?xm * ?ym) tr')"
      using False unfolding importVolume_def Let_def by (simp only: if_False)
    have p3: "P ?t3" by (rule print [OF p2])
    have g: "case ?g of (t', None) \<Rightarrow> P t' | (t', Some st) \<Rightarrow> Q t' st"
      by (rule addTiles_inv [OF p3 call print fuel])
    obtain t4 r4 where r: "?g = (t4, r4)" by (cases ?g)
    show ?thesis
    proof (cases r4)
      case (Some st)
      with g r show ?thesis unfolding iv by simp
    next
      case None
      with g r have "P t4" by simp
      then have "case addTiles n e Labels u d zr ts ?xm ?ym (?xm * ?ym) t4 of
                   (t', None) \<Rightarrow> P t' | (t', Some st) \<Rightarrow> Q t' st"
        by (rule addTiles_inv [OF _ call print fuel])
      then show ?thesis unfolding iv r None by simp
    qed
  qed
qed

lemma serveAndImport_shape:
  assumes "serveAndImport n e u d zr ts out t = (tr, st)" and "noCmd t"
  shows "(\<exists>t0 c m. noCmd t0 \<and> tr = t0 @ [Start c (Some m), Log m] \<and> st = Exited 1)
       \<or> (\<exists>t0 t1 r. noCmd t0 \<and> importVolume n e u d zr ts t0 = (t1, r) \<and>
             (case r of
                None \<Rightarrow> tr = fst (runCommand e t1 [''dvid'', ''shutdown'']) \<and> st = Exited 0
              | Some (Panicked m) \<Rightarrow>
                  tr = fst (runCommand e t1 [''dvid'', ''shutdown'']) \<and> st = Panicked m
              | Some s \<Rightarrow> tr = t1 \<and> st = s))"
proof (cases "cmdStart e t [''dvid'', ''-datastore='' @ out, ''serve'']")
  case (Some m)
  with assms show ?thesis
    by (auto simp: serveAndImport_def)
next
  case None
  let ?t0 = "t @ [Start [''dvid'', ''-datastore='' @ out, ''serve''] None,
                  Print ''Making sure DVID server has started...'', Sleep 3]"
  obtain t1 r where iv: "importVolume n e u d zr ts ?t0 = (t1, r)"
    by (cases "importVolume n e u d zr ts ?t0")
  have n0: "noCmd ?t0" using assms(2) by (simp add: noCmd_def)
  have "case r of
          None \<Rightarrow> tr = fst (runCommand e t1 [''dvid'', ''shutdown'']) \<and> st = Exited 0
        | Some (Panicked m) \<Rightarrow>
            tr = fst (runCommand e t1 [''dvid'', ''shutdown'']) \<and> st = Panicked m
        | Some s \<Rightarrow> tr = t1 \<and> st = s"
    using assms(1) None iv unfolding serveAndImport_def Let_def
    by (auto split: option.splits status.splits)
  with n0 iv show ?thesis by blast
qed

lemma initDatastore_shape:
  assumes "initDatastore e t out = (t', r)" and "noCmd t"
  shows "(\<exists>u. r = Inr u \<and> noCmd t')
       \<or> (r = Inl (Exited 1) \<and>
            (noCmd t' \<or> (\<exists>t0 c m. noCmd t0 \<and> t' = t0 @ [Start c (Some m), Log m])))"
  using assms unfolding initDatastore_def Let_def
  by (auto simp: noCmd_def split: option.splits)

lemma main_voxelproof_shape:
  assumes "main_voxelproof n e help args = (tr, st)"
  shows "noCmd tr
       \<or> (\<exists>t0 c m. noCmd t0 \<and> tr = t0 @ [Start c (Some m), Log m] \<and> st = Exited 1)
       \<or> (\<exists>u d zr ts t0 t1 r. noCmd t0 \<and> importVolume n e u d zr ts t0 = (t1, r) \<and>
             (case r of
                None \<Rightarrow> tr = fst (runCommand e t1 [''dvid'', ''shutdown'']) \<and> st = Exited 0
              | Some (Panicked m) \<Rightarrow>
                  tr = fst (runCommand e t1 [''dvid'', ''shutdown'']) \<and> st = Panicked m
              | Some s \<Rightarrow> tr = t1 \<and> st = s))"
proof -
  consider (early) "noCmd tr"
    | (server) t u d zr ts out where "noCmd t" "serveAndImport n e u d zr ts out t = (tr, st)"
    | (init) t0 c m where "noCmd t0" "tr = t0 @ [Start c (Some m), Log m]" "st = Exited 1"
  proof (cases "help \<or> length args < 4")
    case True
    with assms have "noCmd tr"
      by (auto simp: main_voxelproof_def noCmd_def split: if_splits)
    then show ?thesis by (rule early)
  next
    case False
    show ?thesis
    proof (cases "point2d e (args ! 1)")
      case (Inl m)
      with assms False have "noCmd tr"
        by (auto simp: main_voxelproof_def noCmd_def Let_def)
      then show ?thesis by (rule early)
    next
      case zr: (Inr zr)
      show ?thesis
      proof (cases "point2d e (args ! 2)")
        case (Inl m)
        with assms False zr have "noCmd tr"
          by (auto simp: main_voxelproof_def noCmd_def Let_def)
        then show ?thesis by (rule early)
      next
        case ts: (Inr ts)
        let ?t = "([Print (''VoxelProof data directory: '' @ args ! 0)]
                    @ [Print (''Z range '' @ fmt_d (sint (fst zr)) @ '' -> ''
                        @ fmt_d (sint (snd zr)))])
                   @ [Print (''Tile size: '' @ fmt_d (sint (fst ts)) @ '' x ''
                             @ fmt_d (sint (snd ts)) @ '' pixels''),
                      Print (''Output DVID database: '' @ args ! 3)]"
        have nt: "noCmd ?t" by (simp add: noCmd_def)
        obtain t' r where i: "initDatastore e ?t (args ! 3) = (t', r)"
          by (cases "initDatastore e ?t (args ! 3)")
        have m: "main_voxelproof n e help args =
                   (case initDatastore e ?t (args ! 3) of
                      (tr, Inl st) \<Rightarrow> (tr, st)
                    | (tr, Inr uuidStr) \<Rightarrow>
                        serveAndImport n e uuidStr (args ! 0) zr ts (args ! 3)
                          (tr @ [Print (''Initialized datastore with root version ''
                                  @ uuidStr @ ''.'')]))"
        proof -
          have h: "help = False" "(length args < 3) = False" "(length args < 4) = False"
            using False by auto
          show ?thesis
            unfolding main_voxelproof_def Let_def
            by (simp only: h if_False zr ts sum.case)
        qed
        from initDatastore_shape [OF i nt] show ?thesis
        proof (elim disjE exE conjE)
          fix u assume "r = Inr u" "noCmd t'"
          then show ?thesis
            using assms i unfolding m
            by (intro server [of "t' @ [Print (''Initialized datastore with root version '' @ u @ ''.'')]"])
              (simp_all add: noCmd_def)
        next
          assume "r = Inl (Exited 1)" "noCmd t'"
          then show ?thesis
            using assms i unfolding m by (intro early) simp
        next
          fix t0 c m' assume "r = Inl (Exited 1)" "noCmd t0" "t' = t0 @ [Start c (Some m'), Log m']"
          then show ?thesis
            using assms i unfolding m by (intro init [of t0 c m']) simp_all
        qed
      qed
    qed
  qed
  then show ?thesis
  proof cases
    case early
    then show ?thesis by simp
  next
    case server
    from serveAndImport_shape [OF server(2,1)] show ?thesis by blast
  next
    case init
    then show ?thesis by blast
  qed
qed

lemma clean_append [simp]: "clean (a @ b) = (clean a \<and> clean b)"
  by (simp add: clean_def)

lemma clean_Cons [simp]: "clean (ev # tr) = (\<not> failedImport ev \<and> clean tr)"
  by (simp add: clean_def)

lemma clean_Nil [simp]: "clean []"
  by (simp add: clean_def)

lemma noCmdEv_not_failed: "noCmdEv ev \<Longrightarrow> \<not> failedImport ev"
  by (cases ev rule: noCmdEv.cases) auto

lemma noCmd_clean: "noCmd tr \<Longrightarrow> clean tr"
  by (induction tr) (auto simp: noCmd_def noCmdEv_not_failed)

lemma failedImport_isImport: "failedImport (Exec c r) \<Longrightarrow> isImport c"
  by (cases r) auto

lemma runCommand_clean:
  "clean t \<Longrightarrow> \<not> isImport c \<Longrightarrow> clean (fst (runCommand e t c))"
  by (cases "cmdOutput e t c") (auto simp: runCommand_def dest: failedImport_isImport)

lemma runOrFatal_clean:
  assumes "clean t" "isImport args"
  shows "case runOrFatal e t args of
           (t', None) \<Rightarrow> clean t' | (t', Some st) \<Rightarrow> clean t' \<or> halted t' st"
proof (rule runOrFatal_inv)
  fix out :: string
  show "clean (if out \<noteq> [] then t @ [Exec args None, Print out] else t @ [Exec args None])"
    using assms by simp
next
  fix out m :: string
  let ?t = "(if out \<noteq> [] then t @ [Exec args (Some m), Print out] else t @ [Exec args (Some m)])
              @ [Log (''Error in command: '' @ m)]"
  have "halted ?t (Exited 1)"
    unfolding halted_def using assms
    by (intro exI [of _ t] exI [of _ args] exI [of _ m]) auto
  then show "clean ?t \<or> halted ?t (Exited 1)" ..
qed

lemma halted_Exited: "halted t st \<Longrightarrow> st = Exited 1"
  by (auto simp: halted_def)

lemma main_voxelproof_clean_or_halted:
  assumes "main_voxelproof n e help args = (tr, st)"
  shows "clean tr \<or> halted tr st"
  using main_voxelproof_shape [OF assms]
proof (elim disjE exE conjE)
  assume "noCmd tr"
  then show ?thesis by (simp add: noCmd_clean)
next
  fix t0 c m assume "noCmd t0" "tr = t0 @ [Start c (Some m), Log m]"
  then show ?thesis by (simp add: noCmd_clean)
next
  fix u d zr ts t0 t1 r
  assume n0: "noCmd t0" and iv: "importVolume n e u d zr ts t0 = (t1, r)"
    and r: "case r of
              None \<Rightarrow> tr = fst (runCommand e t1 [''dvid'', ''shutdown'']) \<and> st = Exited 0
            | Some (Panicked m) \<Rightarrow>
                tr = fst (runCommand e t1 [''dvid'', ''shutdown'']) \<and> st = Panicked m
            | Some s \<Rightarrow> tr = t1 \<and> st = s"
  have i: "case importVolume n e u d zr ts t0 of
             (t', None) \<Rightarrow> clean t' | (t', Some s) \<Rightarrow> clean t' \<or> halted t' s"
    by (rule importVolume_inv [where P = clean and Q = "\<lambda>t s. clean t \<or> halted t s"])
      (auto simp: noCmd_clean n0 runOrFatal_clean runCommand_clean isImport_def)
  have sh: "\<not> isImport [''dvid'', ''shutdown'']"
    by (simp add: isImport_def)
  show ?thesis
  proof (cases r)
    case None
    with i iv r show ?thesis by (simp add: runCommand_clean sh)
  next
    case (Some s)
    show ?thesis
    proof (cases s)
      case (Panicked m)
      with i iv Some have "clean t1" by (auto dest: halted_Exited)
      with r Some Panicked show ?thesis by (simp add: runCommand_clean sh)
    qed (use i iv r Some in auto)
  qed
qed

lemma main_raveler_clean_or_halted:
  assumes "main_raveler n e fl args = (tr, st)"
  shows "clean tr \<or> halted tr st"
proof -
  have loop: "case forLoop n c (addSlice n e fl ds u d sx ex sy ey) i t of
                (t', None) \<Rightarrow> clean t' | (t', Some s) \<Rightarrow> clean t' \<or> halted t' s"
    if "clean t" for c ds u d sx ex sy ey i t
  proof (rule forLoop_inv [where P = clean and Q = "\<lambda>t s. clean t \<or> halted t s", OF that])
    fix j t1 t' assume "clean t1" "addSlice n e fl ds u d sx ex sy ey j t1 = (t', None)"
    then show "clean t'"
      using addSlice_inv [where P = clean and Q = "\<lambda>t s. clean t \<or> halted t s"
          and e = e and tr = t1 and n = n and fl = fl and ds = ds and u = u and d = d and sx = sx
          and ex = ex and sy = sy and ey = ey and z = j]
      by (auto simp: runOrFatal_clean)
  next
    fix j t1 t' s assume "clean t1" "addSlice n e fl ds u d sx ex sy ey j t1 = (t', Some s)"
    then show "clean t' \<or> halted t' s"
      using addSlice_inv [where P = clean and Q = "\<lambda>t s. clean t \<or> halted t s"
          and e = e and tr = t1 and n = n and fl = fl and ds = ds and u = u and d = d and sx = sx
          and ex = ex and sy = sy and ey = ey and z = j]
      by (auto simp: runOrFatal_clean)
  qed simp
  show ?thesis
  proof (cases "showHelp fl \<or> length args < 5")
    case True
    with assms show ?thesis
      by (auto simp: main_raveler_def split: if_splits)
  next
    case False
    show ?thesis
    proof (cases "voxelCoord e (args ! 3)")
      case (Inl m)
      with assms False show ?thesis by (auto simp: main_raveler_def Let_def)
    next
      case off: (Inr off)
      show ?thesis
      proof (cases "point3d e (args ! 4)")
        case (Inl m)
        with assms False off show ?thesis by (auto simp: main_raveler_def Let_def)
      next
        case sz: (Inr sz)
        let ?t = "([Print (''Tiles directory: '' @ args ! 2)] @ [Print (''Offset: '' @ coordString e off)])
                    @ [Print (''Size: '' @ coordString e sz)]"
        let ?l = "forLoop n (\<lambda>z. sint z \<le> sint (snd (snd (AddSize off sz))))
                    (addSlice n e fl (args ! 1) (args ! 0) (args ! 2)
                       (div32 (fst off) tileSize) (div32 (fst (AddSize off sz)) tileSize)
                       (div32 (fst (snd off)) tileSize) (div32 (fst (snd (AddSize off sz))) tileSize))
                    (snd (snd off)) ?t"
        have h: "showHelp fl = False" "(length args < 5) = False"
          using False by auto
        have m: "main_raveler n e fl args =
                   (case ?l of (tr', None) \<Rightarrow> (tr', Exited 0) | (tr', Some st) \<Rightarrow> (tr', st))"
          unfolding main_raveler_def Let_def
          by (simp only: h if_False off sz sum.case)
        obtain t' r where l: "?l = (t', r)"
          by (cases ?l)
        have "case ?l of (t', None) \<Rightarrow> clean t' | (t', Some s) \<Rightarrow> clean t' \<or> halted t' s"
          by (rule loop) simp
        then have "case r of None \<Rightarrow> clean t' | Some s \<Rightarrow> clean t' \<or> halted t' s"
          unfolding l by simp
        moreover have "(tr, st) = (case r of None \<Rightarrow> (t', Exited 0) | Some s \<Rightarrow> (t', s))"
          using assms unfolding m l by simp
        ultimately show ?thesis
          by (cases r) auto
      qed
    qed
  qed
qed

lemma unique_split:
  assumes "xs @ a # ys = xs' @ a' # ys'" "F a"
    and "list_all (\<lambda>x. \<not> F x) xs'" "list_all (\<lambda>x. \<not> F x) ys'"
  shows "xs = xs' \<and> a = a' \<and> ys = ys'"
  using assms
proof (induction xs' arbitrary: xs)
  case Nil
  then show ?case
    by (cases xs) (auto simp: list_all_iff)
next
  case (Cons x xs')
  then show ?case
    by (cases xs) auto
qed

lemma failed_import_split:
  assumes "clean tr \<or> halted tr st"
    and "tr = pre @ Exec c (Some m) # post"
    and "isImport c"
  shows "clean pre
         \<and> (post = [Log (''Error in command: '' @ m)]
            \<or> (\<exists>out. post = [Print out, Log (''Error in command: '' @ m)]))
         \<and> st = Exited 1"
proof -
  have "\<not> clean tr"
    using assms(2,3) by simp
  with assms(1) have "halted tr st" by simp
  then obtain pre' c' m' post' where h: "isImport c'" "clean pre'" "st = Exited 1"
    "tr = pre' @ Exec c' (Some m') # post'"
    "post' = [Log (''Error in command: '' @ m')] \<or> (\<exists>out. post' = [Print out, Log (''Error in command: '' @ m')])"
    unfolding halted_def by auto
  have "list_all (\<lambda>x. \<not> failedImport x) post'"
    using h(5) by auto
  moreover have "list_all (\<lambda>x. \<not> failedImport x) pre'"
    using h(2) by (simp add: clean_def)
  moreover have "failedImport (Exec c (Some m))"
    using assms(3) by simp
  moreover have "pre @ Exec c (Some m) # post = pre' @ Exec c' (Some m') # post'"
    using assms(2) h(4) by simp
  ultimately have "pre = pre' \<and> Exec c (Some m) = Exec c' (Some m') \<and> post = post'"
    using unique_split [of pre "Exec c (Some m)" post pre' "Exec c' (Some m')" post' failedImport]
    by blast
  with h show ?thesis by auto
qed

section \<open>The first failing import ends the run\<close>

text \<open>
  C8. In both drivers, a tile import that fails is the last command of the run: every
  tile import before it succeeded, nothing follows it but its output, if it printed
  any, and the line \<open>Error in command: <error text>\<close> of the log, and the process exits
  with code 1. No later tile is imported, none is retried or skipped.
\<close>

theorem failed_import_ends_run:
  assumes "main_raveler n e fl args = (tr, st) \<or> main_voxelproof n e help args = (tr, st)"
    and "tr = pre @ Exec c (Some m) # post"
    and "isImport c"
  shows "clean pre \<and> execs post = []
         \<and> (post = [Log (''Error in command: '' @ m)]
            \<or> (\<exists>out. post = [Print out, Log (''Error in command: '' @ m)]))
         \<and> st = Exited 1"
proof -
  have "clean tr \<or> halted tr st"
    using assms(1) main_raveler_clean_or_halted main_voxelproof_clean_or_halted by blast
  from failed_import_split [OF this assms(2,3)] show ?thesis
    by auto
qed

theorem failed_import_ends_run_witness:
  "main_voxelproof 1 (sampleEnv (0, 2) (350, 350) [''dvid'', ''grayscale'', ''server-add''])
     False [''/vp'', ''zr'', ''ts'', ''/out'']
   = ([Print ''VoxelProof data directory: /vp'', Print ''Z range 0 -> 2'',
       Print ''Tile size: 350 x 350 pixels'',
       Print ''Output DVID database: /out'',
       Start [''dvid'', ''-datastore=/out'', ''init''] None,
       Print ''Initialized datastore with root version abc.'',
       Start [''dvid'', ''-datastore=/out'', ''serve''] None,
       Print ''Making sure DVID server has started...'', Sleep 3,
       Exec [''dvid'', ''dataset'', ''grayscale'', ''grayscale8''] None,
       Exec [''dvid'', ''dataset'', ''labels'', ''labels32''] None,
       Print ''X Tiles from [0,2), Y Tiles from [0,2)'']
      @ Exec [''dvid'', ''grayscale'', ''server-add'', ''abc'', ''0,0,0'', ''/vp/z/0/0-0.png'']
         (Some ''exit status 1'')
      # [Log ''Error in command: exit status 1''],
      Exited 1)
   \<and> isImport [''dvid'', ''grayscale'', ''server-add'', ''abc'', ''0,0,0'', ''/vp/z/0/0-0.png'']
   \<and> execs [Log ''Error in command: exit status 1''] = []"
proof -
  let ?e = "sampleEnv (0, 2) (350, 350) [''dvid'', ''grayscale'', ''server-add'']"
  let ?a = "[''/vp'', ''zr'', ''ts'', ''/out'']"
  let ?pre = "[Print ''VoxelProof data directory: /vp'', Print ''Z range 0 -> 2'',
       Print ''Tile size: 350 x 350 pixels'',
       Print ''Output DVID database: /out'',
       Start [''dvid'', ''-datastore=/out'', ''init''] None,
       Print ''Initialized datastore with root version abc.'',
       Start [''dvid'', ''-datastore=/out'', ''serve''] None,
       Print ''Making sure DVID server has started...'', Sleep 3,
       Exec [''dvid'', ''dataset'', ''grayscale'', ''grayscale8''] None,
       Exec [''dvid'', ''dataset'', ''labels'', ''labels32''] None,
       Print ''X Tiles from [0,2), Y Tiles from [0,2)'']"
  let ?c = "[''dvid'', ''grayscale'', ''server-add'', ''abc'', ''0,0,0'', ''/vp/z/0/0-0.png'']"
  let ?post = "[Log ''Error in command: exit status 1'']"
  have run: "main_voxelproof 1 ?e False ?a = (?pre @ Exec ?c (Some ''exit status 1'') # ?post, Exited 1)"
    by code_simp
  have imp: "isImport ?c"
    by code_simp
  from failed_import_ends_run [OF disjI2 [OF run] refl imp] run imp show ?thesis
    by blast
qed

section \<open>An error of a dataset-creation command\<close>

text \<open>
  C5. Every error of a subprocess should end the run: the error is logged and the
  process exits; so for the two dataset-creation commands of the VoxelProof importer as
  for the tile imports. \<open>main\<close> calls \<open>runCommand\<close> for the two dataset commands and
  drops what it returns, where the tile imports of the same function test the error.
  In the run below both dataset commands fail: nothing is logged, the tiles are
  imported into datasets that were not created, the server is shut down and the
  process exits with code 0.
\<close>

theorem dataset_error_not_fatal:
  "main_voxelproof (2 + n) (sampleEnv (0, 0) (700, 700) [''dvid'', ''dataset'']) False
     [''/vp'', ''zr'', ''ts'', ''/out'']
   = ([Print ''VoxelProof data directory: /vp'', Print ''Z range 0 -> 0'',
       Print ''Tile size: 700 x 700 pixels'',
       Print ''Output DVID database: /out'',
       Start [''dvid'', ''-datastore=/out'', ''init''] None,
       Print ''Initialized datastore with root version abc.'',
       Start [''dvid'', ''-datastore=/out'', ''serve''] None,
       Print ''Making sure DVID server has started...'', Sleep 3,
       Exec [''dvid'', ''dataset'', ''grayscale'', ''grayscale8''] (Some ''exit status 1''),
       Exec [''dvid'', ''dataset'', ''labels'', ''labels32''] (Some ''exit status 1''),
       Print ''X Tiles from [0,1), Y Tiles from [0,1)'',
       Exec [''dvid'', ''grayscale'', ''server-add'', ''abc'', ''0,0,0'', ''/vp/z/0/0-0.png''] None,
       Print ''Added 1 grayscale tiles from z = 0...'',
       Exec [''dvid'', ''labels'', ''server-add'', ''abc'', ''0,0,0'', ''/vp/comps/z/0/0-0.png'']
         None,
       Print ''Added 1 label tiles from z = 0...'',
       Exec [''dvid'', ''shutdown''] None],
      Exited 0)"
proof -
  let ?e = "sampleEnv (0, 0) (700, 700) [''dvid'', ''dataset'']"
  let ?a = "[''/vp'', ''zr'', ''ts'', ''/out'']"
  have a: "snd (main_voxelproof 2 ?e False ?a) = Exited 0"
    by code_simp
  have "main_voxelproof (2 + n) ?e False ?a = main_voxelproof 2 ?e False ?a"
    by (rule main_voxelproof_more_fuel)
      (simp_all only: a le_add1 status.distinct not_False_eq_True)
  also have "\<dots> = ([Print ''VoxelProof data directory: /vp'', Print ''Z range 0 -> 0'',
       Print ''Tile size: 700 x 700 pixels'',
       Print ''Output DVID database: /out'',
       Start [''dvid'', ''-datastore=/out'', ''init''] None,
       Print ''Initialized datastore with root version abc.'',
       Start [''dvid'', ''-datastore=/out'', ''serve''] None,
       Print ''Making sure DVID server has started...'', Sleep 3,
       Exec [''dvid'', ''dataset'', ''grayscale'', ''grayscale8''] (Some ''exit status 1''),
       Exec [''dvid'', ''dataset'', ''labels'', ''labels32''] (Some ''exit status 1''),
       Print ''X Tiles from [0,1), Y Tiles from [0,1)'',
       Exec [''dvid'', ''grayscale'', ''server-add'', ''abc'', ''0,0,0'', ''/vp/z/0/0-0.png''] None,
       Print ''Added 1 grayscale tiles from z = 0...'',
       Exec [''dvid'', ''labels'', ''server-add'', ''abc'', ''0,0,0'', ''/vp/comps/z/0/0-0.png'']
         None,
       Print ''Added 1 label tiles from z = 0...'',
       Exec [''dvid'', ''shutdown''] None],
      Exited 0)"
    by code_simp
  finally show ?thesis .
qed

section \<open>The progress line of the tile-server importer\<close>

lemma sdiv_1024_bounds: "- 2147483648 \<le> k \<Longrightarrow> k < 2147483648 \<Longrightarrow>
    - 2097152 \<le> (k::int) sdiv 1024 \<and> k sdiv 1024 \<le> 2097152"
  by (auto simp: signed_divide_int_def sgn_if)

lemma sint_div32_tileSize: "sint (div32 a tileSize) = sint a sdiv 1024"
  using sdiv_1024_bounds [of "sint a"] sint32_range [of a]
  by (simp add: div32_def tileSize_def sint_word_of_int32)

lemma sint_div32_tileSize_bound: "sint (div32 a tileSize) < 2147483647"
  using sdiv_1024_bounds [of "sint a"] sint32_range [of a]
  by (simp add: sint_div32_tileSize)

lemma length_upto_rec: "i \<le> j \<Longrightarrow> length [i..j] = Suc (length [i + 1..j])"
  by (simp add: upto_rec1)

lemma forLoop_count:
  assumes bound: "sint e < 2147483647"
    and step: "\<And>j s s'. body j s = (s', None) \<Longrightarrow> f s' = f s + (c::int)"
    and res: "forLoop n (\<lambda>i. sint i \<le> sint e) body i s = (s', None)"
  shows "f s' = f s + c * int (length [sint i..sint e])"
  using res
proof (induction n arbitrary: i s)
  case 0
  then show ?case by simp
next
  case (Suc n)
  show ?case
  proof (cases "sint i \<le> sint e")
    case False
    with Suc.prems show ?thesis by simp
  next
    case True
    obtain s1 r where b: "body i s = (s1, r)"
      by (cases "body i s")
    with Suc.prems True have r: "r = None" and l: "forLoop n (\<lambda>i. sint i \<le> sint e) body (i + 1) s1 = (s', None)"
      by (auto split: option.splits)
    have "sint (i + 1) = sint i + 1"
      using True bound by (intro sint_succ32) simp
    with Suc.IH [OF l] have "f s' = f s1 + c * int (length [sint i + 1..sint e])"
      by simp
    moreover have "f s1 = f s + c"
      using step b r by simp
    ultimately show ?thesis
      using length_upto_rec [OF True] by (simp add: algebra_simps)
  qed
qed

lemma forLoop_total:
  assumes bound: "sint e < 2147483647"
    and body: "\<And>j s. snd (body j s) = None"
    and fuel: "length [sint i..sint e] < n"
  shows "snd (forLoop n (\<lambda>i. sint i \<le> sint e) body i s) = None"
  using fuel
proof (induction n arbitrary: i s)
  case 0
  then show ?case by simp
next
  case (Suc n)
  show ?case
  proof (cases "sint i \<le> sint e")
    case False
    then show ?thesis by simp
  next
    case True
    obtain s1 where b: "body i s = (s1, None)"
      using body [of i s] by (cases "body i s") auto
    have "sint (i + 1) = sint i + 1"
      using True bound by (intro sint_succ32) simp
    with Suc.prems length_upto_rec [OF True] have "length [sint (i + 1)..sint e] < n"
      by simp
    from Suc.IH [OF this] True b show ?thesis by simp
  qed
qed


lemma tileBody_no_flags:
  "\<not> loadSuperpixels fl \<Longrightarrow> \<not> loadGrayscale fl \<Longrightarrow> tileBody e fl ds u d z y x t = (t, None)"
  by (simp add: tileBody_def)

text \<open>
  C10. In the tile-server importer the number that the progress line of a slice prints
  is the number of (row, column) cells of the tile grid, whatever the flags
  \<open>-superpixels\<close> and \<open>-grayscale\<close> are: whenever the pass over a slice comes to its end,
  its last output is the line \<open>Added N <dataset> tiles from z = <z>...\<close> with \<open>N\<close> the
  number of cells. With neither flag set and fuel for the rows and the columns, the pass
  does come to its end, issues no command at all and prints the line with the full
  number of cells. (The end tiles are those of \<open>main\<close>, an end voxel divided by 1024.)
\<close>

theorem slice_progress_count:
  assumes ex: "endTileX = div32 endVoxelX tileSize"
    and ey: "endTileY = div32 endVoxelY tileSize"
  shows "(\<forall>tr'. addSlice n e fl ds u d startTileX endTileX startTileY endTileY z tr = (tr', None) \<longrightarrow>
            last tr' = Print (addedLine
              (int (length (List.product [sint startTileY..sint endTileY] [sint startTileX..sint endTileX])))
              ds (sint z)))
       \<and> (\<not> loadSuperpixels fl \<and> \<not> loadGrayscale fl
            \<and> length [sint startTileX..sint endTileX] < n
            \<and> length [sint startTileY..sint endTileY] < n \<longrightarrow>
          addSlice n e fl ds u d startTileX endTileX startTileY endTileY z tr
            = (tr @ [Print (addedLine
                 (int (length (List.product [sint startTileY..sint endTileY]
                    [sint startTileX..sint endTileX])))
                 ds (sint z))], None))"
proof -
  let ?b = "\<lambda>tileY tileX (tr, numTiles :: int).
               case tileBody e fl ds u d z tileY tileX tr of
                 (tr', None) \<Rightarrow> ((tr', numTiles + 1), None)
               | (tr', Some st) \<Rightarrow> ((tr', numTiles), Some st)"
  let ?xl = "\<lambda>tileY. forLoop n (\<lambda>tileX. sint tileX \<le> sint endTileX) (?b tileY) startTileX"
  let ?yl = "forLoop n (\<lambda>tileY. sint tileY \<le> sint endTileY) ?xl startTileY (tr, 0)"
  let ?cols = "int (length [sint startTileX..sint endTileX])"
  let ?cells = "int (length (List.product [sint startTileY..sint endTileY]
                  [sint startTileX..sint endTileX]))"
  have bx: "sint endTileX < 2147483647" and bny: "sint endTileY < 2147483647"
    unfolding ex ey by (rule sint_div32_tileSize_bound)+
  have slice: "addSlice n e fl ds u d startTileX endTileX startTileY endTileY z tr =
          (case ?yl of
             ((tr', numTiles), None) \<Rightarrow> (tr' @ [Print (addedLine numTiles ds (sint z))], None)
           | ((tr', numTiles), Some st) \<Rightarrow> (tr', Some st))"
    unfolding addSlice_def ..
  have one: "snd s' = snd s + 1" if "?b y j s = (s', None)" for y j s s'
    using that by (auto split: prod.splits option.splits)
  have row: "snd s' = snd s + ?cols" if "?xl y s = (s', None)" for y s s'
    using forLoop_count [where f = snd and c = 1, OF bx one that] by simp
  have count: "snd s' = ?cells" if "?yl = (s', None)" for s'
    using forLoop_count [where f = snd and c = ?cols, OF bny row that]
    by (simp add: mult.commute)
  have a: "last tr' = Print (addedLine ?cells ds (sint z))"
    if "addSlice n e fl ds u d startTileX endTileX startTileY endTileY z tr = (tr', None)" for tr'
  proof -
    obtain t1 k r where y: "?yl = ((t1, k), r)"
      by (cases ?yl) auto
    with that have r: "r = None" and t: "tr' = t1 @ [Print (addedLine k ds (sint z))]"
      unfolding slice by (auto split: option.splits)
    from count [of "(t1, k)"] y r have "k = ?cells" by simp
    with t show ?thesis by simp
  qed
  have b: "addSlice n e fl ds u d startTileX endTileX startTileY endTileY z tr
            = (tr @ [Print (addedLine ?cells ds (sint z))], None)"
    if nf: "\<not> loadSuperpixels fl" "\<not> loadGrayscale fl"
      and fx: "length [sint startTileX..sint endTileX] < n"
      and fy: "length [sint startTileY..sint endTileY] < n"
  proof -
    have body: "?b y j s = ((fst s, snd s + 1), None)" for y j s
      by (cases s) (simp add: tileBody_no_flags [OF nf])
    have xt: "snd (?xl y s) = None" for y s
      by (rule forLoop_total [OF bx _ fx]) (simp add: body)
    have yt: "snd ?yl = None"
      by (rule forLoop_total [OF bny xt fy])
    have keep: "case forLoop n c bd i s of (s', None) \<Rightarrow> fst s' = tr | (s', Some st) \<Rightarrow> True"
      if "fst s = tr" and "\<And>j s s'. fst s = tr \<Longrightarrow> bd j s = (s', None) \<Longrightarrow> fst s' = tr"
      for c i and s :: "event list \<times> int" and bd
      by (rule forLoop_inv [where P = "\<lambda>s. fst s = tr" and Q = "\<lambda>s st. True", OF that(1)])
        (use that(2) in auto)
    have xk: "fst s' = tr" if "fst s = tr" "?xl y s = (s', None)" for y s s'
    proof -
      have "case ?xl y s of (s', None) \<Rightarrow> fst s' = tr | (s', Some st) \<Rightarrow> True"
        by (rule keep [OF that(1)]) (auto simp: body)
      with that(2) show ?thesis by simp
    qed
    have yk: "case ?yl of (s', None) \<Rightarrow> fst s' = tr | (s', Some st) \<Rightarrow> True"
      by (rule keep) (use xk in auto)
    obtain t1 k where y: "?yl = ((t1, k), None)"
      using yt by (cases ?yl) auto
    with yk have "t1 = tr" by simp
    moreover from count [of "(t1, k)"] y have "k = ?cells" by simp
    ultimately show ?thesis
      unfolding slice y by simp
  qed
  from a b show ?thesis by blast
qed

theorem slice_progress_count_witness:
  "addSlice 4 (sampleEnv (0, 0) (1, 1) [])
     \<lparr>loadSuperpixels = False, loadGrayscale = False, showHelp = False\<rparr>
     ''gray'' ''uu'' ''/tiles'' 0 (div32 2100 tileSize) 1 (div32 2010 tileSize) 5 []
   = ([Print ''Added 3 gray tiles from z = 5...''], None)"
proof -
  let ?fl = "\<lparr>loadSuperpixels = False, loadGrayscale = False, showHelp = False\<rparr>"
  have h: "\<not> loadSuperpixels ?fl \<and> \<not> loadGrayscale ?fl
           \<and> length [sint (0::int32)..sint (div32 2100 tileSize)] < 4
           \<and> length [sint (1::int32)..sint (div32 2010 tileSize)] < 4"
    by code_simp
  have v: "addedLine (int (length (List.product [sint (1::int32)..sint (div32 2010 tileSize)]
              [sint (0::int32)..sint (div32 2100 tileSize)]))) ''gray'' (sint (5::int32))
           = ''Added 3 gray tiles from z = 5...''"
    by code_simp
  from slice_progress_count [OF refl refl, THEN conjunct2, rule_format, OF h,
      of "sampleEnv (0, 0) (1, 1) []" "''gray''" "''uu''" "''/tiles''" 5 "[]"]
  show ?thesis
    unfolding v by simp
qed

section \<open>The bounds of the tile grid\<close>
















end
